theory Spec2Isabelle
  imports Main
begin

section \<open>StreamPro synthetic data generator (generate_data.py)\<close>

text \<open>
  A shallow embedding of \<^verbatim>\<open>src/generate_data.py\<close>. The file holds the same program
  twice (lines 1-268 and 270-537, differing only in the capitalisation of two comments);
  the second copy rebinds every name, so one embedding covers both.

  What the program takes from outside is made an explicit input:
  \<^item> the two pseudo-random generators (\<^verbatim>\<open>random\<close> and \<^verbatim>\<open>numpy.random\<close>) are sequences of
    raw draws, and every library call maps the next raw draw into the range the library
    documents, so any outcome the library can produce is the outcome for some sequence;
  \<^item> the wall clock (\<^verbatim>\<open>datetime.utcnow()\<close>) is read twice, once by each generator that
    uses it;
  \<^item> what is written to the four files is returned as the rows that are serialised.
\<close>

subsection \<open>Exceptions\<close>

text \<open>
  The exceptions the program can raise: \<^verbatim>\<open>ValueError\<close> (an empty \<^verbatim>\<open>randint\<close> range, a
  seed numpy refuses), \<^verbatim>\<open>IndexError\<close> (\<^verbatim>\<open>random.choice\<close> of an empty list) and
  \<^verbatim>\<open>OverflowError\<close> (date arithmetic leaving the range of \<^verbatim>\<open>datetime\<close>). The source
  defines no exception class of its own.
\<close>

datatype error = ValueError | IndexError | OverflowError

definition bindE :: "error + 'a \<Rightarrow> ('a \<Rightarrow> error + 'b) \<Rightarrow> error + 'b" where
  "bindE m f = (case m of Inl e \<Rightarrow> Inl e | Inr x \<Rightarrow> f x)"

subsection \<open>The random sources\<close>

record rng =
  py_src :: "nat \<Rightarrow> nat"
  py_pos :: nat
  np_src :: "nat \<Rightarrow> nat"
  np_pos :: nat

definition py_next :: "rng \<Rightarrow> nat \<times> rng" where
  "py_next g = (py_src g (py_pos g), g\<lparr>py_pos := Suc (py_pos g)\<rparr>)"

definition np_next :: "rng \<Rightarrow> nat \<times> rng" where
  "np_next g = (np_src g (np_pos g), g\<lparr>np_pos := Suc (np_pos g)\<rparr>)"

text \<open>\<^verbatim>\<open>random.randint(a, b)\<close>: an integer of the closed range, \<^verbatim>\<open>ValueError\<close> when it is empty.\<close>

definition randint :: "int \<Rightarrow> int \<Rightarrow> rng \<Rightarrow> error + (int \<times> rng)" where
  "randint a b g =
     (if b < a then Inl ValueError
      else (case py_next g of (r, g1) \<Rightarrow> Inr (a + int (r mod nat (b - a + 1)), g1)))"

text \<open>\<^verbatim>\<open>random.choice(seq)\<close>: an element of the sequence, \<^verbatim>\<open>IndexError\<close> when it is empty.\<close>

definition choice :: "'a list \<Rightarrow> rng \<Rightarrow> error + ('a \<times> rng)" where
  "choice xs g =
     (if xs = [] then Inl IndexError
      else (case py_next g of (r, g1) \<Rightarrow> Inr (xs ! (r mod length xs), g1)))"

text \<open>
  \<^verbatim>\<open>random.sample(population, k)\<close>: \<open>k\<close> elements at distinct positions, one draw each,
  the chosen position leaving the pool; \<^verbatim>\<open>ValueError\<close> unless \<open>0 \<le> k \<le> len(population)\<close>.
\<close>

fun sample_pick :: "'a list \<Rightarrow> nat \<Rightarrow> rng \<Rightarrow> 'a list \<times> rng" where
  "sample_pick pool 0 g = ([], g)"
| "sample_pick pool (Suc k) g =
     (case py_next g of (r, g1) \<Rightarrow>
        (case sample_pick (take (r mod length pool) pool @ drop (Suc (r mod length pool)) pool) k g1 of
           (rest, g2) \<Rightarrow> (pool ! (r mod length pool) # rest, g2)))"

definition sample :: "'a list \<Rightarrow> int \<Rightarrow> rng \<Rightarrow> error + ('a list \<times> rng)" where
  "sample population k g =
     (if k < 0 \<or> int (length population) < k then Inl ValueError
      else Inr (sample_pick population (nat k) g))"

text \<open>
  \<^verbatim>\<open>random.random()\<close> returns \<open>n / 2^53\<close> for an integer \<open>0 \<le> n < 2^53\<close>; the model returns
  \<open>n\<close>. The double nearest to \<open>0.12\<close> is \<open>1080863910568919 / 2^53\<close> exactly, so
  \<^verbatim>\<open>random.random() < 0.12\<close> is \<open>n < 1080863910568919\<close>.
\<close>

definition random_53 :: "rng \<Rightarrow> nat \<times> rng" where
  "random_53 g = (case py_next g of (r, g1) \<Rightarrow> (r mod 2 ^ 53, g1))"

definition lt_0_12 :: "nat \<Rightarrow> bool" where
  "lt_0_12 n \<longleftrightarrow> n < 1080863910568919"

text \<open>
  \<^verbatim>\<open>np.random.poisson(lam=1.8)\<close> is a non-negative integer, and
  \<^verbatim>\<open>int(np.random.exponential(scale=12))\<close> truncates a finite non-negative float: both are
  a natural number, and the model lets it be any.
\<close>

definition poisson :: "rng \<Rightarrow> nat \<times> rng" where
  "poisson g = np_next g"

definition int_exponential :: "rng \<Rightarrow> nat \<times> rng" where
  "int_exponential g = np_next g"

subsection \<open>Dates and times\<close>

text \<open>
  A \<^verbatim>\<open>datetime\<close> is its number of microseconds since 0001-01-01T00:00:00, a \<^verbatim>\<open>date\<close> its
  number of days since 0001-01-01, a \<^verbatim>\<open>timedelta\<close> its length in microseconds. The
  constructors and the arithmetic raise \<^verbatim>\<open>OverflowError\<close> outside the library's ranges:
  a \<^verbatim>\<open>timedelta\<close> has at most 999999999 days either way, a date lies in the years 1 to 9999
  (3652059 days). An event's timestamp is kept as the \<^verbatim>\<open>datetime\<close> whose \<^verbatim>\<open>isoformat()\<close> the
  source stores; a sign-up date as the \<^verbatim>\<open>date\<close> whose \<^verbatim>\<open>str\<close> it stores.
\<close>

type_synonym datetime = int
type_synonym date = int
type_synonym timedelta = int

definition us_per_second :: int where "us_per_second = 1000000"
definition us_per_minute :: int where "us_per_minute = 60000000"
definition us_per_hour :: int where "us_per_hour = 3600000000"
definition us_per_day :: int where "us_per_day = 86400000000"
definition max_ordinal :: int where "max_ordinal = 3652059"

definition timedelta_us :: "int \<Rightarrow> error + timedelta" where
  "timedelta_us us =
     (if \<bar>us div us_per_day\<bar> \<le> 999999999 then Inr us else Inl OverflowError)"

definition timedelta_days :: "int \<Rightarrow> error + timedelta" where
  "timedelta_days d = timedelta_us (d * us_per_day)"

definition timedelta_hours :: "int \<Rightarrow> error + timedelta" where
  "timedelta_hours h = timedelta_us (h * us_per_hour)"

definition timedelta_minutes :: "int \<Rightarrow> error + timedelta" where
  "timedelta_minutes m = timedelta_us (m * us_per_minute)"

definition timedelta_seconds :: "int \<Rightarrow> error + timedelta" where
  "timedelta_seconds s = timedelta_us (s * us_per_second)"

definition datetime_range :: "int \<Rightarrow> error + datetime" where
  "datetime_range t =
     (if 0 \<le> t \<and> t < max_ordinal * us_per_day then Inr t else Inl OverflowError)"

definition datetime_add :: "datetime \<Rightarrow> timedelta \<Rightarrow> error + datetime" where
  "datetime_add t d = datetime_range (t + d)"

definition datetime_sub :: "datetime \<Rightarrow> timedelta \<Rightarrow> error + datetime" where
  "datetime_sub t d = datetime_range (t - d)"

definition date_of :: "datetime \<Rightarrow> date" where
  "date_of t = t div us_per_day"

definition date_sub :: "date \<Rightarrow> timedelta \<Rightarrow> error + date" where
  "date_sub d td =
     (if 0 \<le> d - td div us_per_day \<and> d - td div us_per_day < max_ordinal
      then Inr (d - td div us_per_day) else Inl OverflowError)"

subsection \<open>Formatting\<close>

definition digit_char :: "nat \<Rightarrow> char" where
  "digit_char d = ''0123456789'' ! d"

fun str_nat :: "nat \<Rightarrow> string" where
  "str_nat n = (if n < 10 then [digit_char n] else str_nat (n div 10) @ [digit_char (n mod 10)])"

declare str_nat.simps [simp del]

text \<open>\<^verbatim>\<open>str(i)\<close> and \<^verbatim>\<open>f"{i}"\<close> of an integer.\<close>

definition str_int :: "int \<Rightarrow> string" where
  "str_int i = (if i < 0 then CHR ''-'' # str_nat (nat (- i)) else str_nat (nat i))"

text \<open>\<^verbatim>\<open>f"{i:0wd}"\<close> of a non-negative integer: zeros on the left up to the width.\<close>

definition zero_pad :: "nat \<Rightarrow> nat \<Rightarrow> string" where
  "zero_pad w n = replicate (w - length (str_nat n)) CHR ''0'' @ str_nat n"

subsection \<open>Configuration\<close>

record GeneratorConfig =
  out_dir :: string
  days :: int
  users :: int
  videos :: int
  seed :: int

subsection \<open>Reference tables\<close>

text \<open>
  A \<^verbatim>\<open>DataFrame\<close> is the list of its rows, a row the tuple of its columns in the declared
  order. \<^verbatim>\<open>range(n)\<close> is \<open>[0..<nat n]\<close>: empty when \<open>n \<le> 0\<close>.
\<close>

type_synonym user_row = "string \<times> date \<times> string \<times> string \<times> string"
type_synonym video_row = "string \<times> string \<times> string \<times> int \<times> string"
type_synonym device_row = "string \<times> string \<times> string"

definition subscription_tiers :: "string list" where
  "subscription_tiers = [''free'', ''basic'', ''premium'']"

definition age_groups :: "string list" where
  "age_groups = [''18-24'', ''25-34'', ''35-44'', ''45-54'', ''55+'']"

definition genders :: "string list" where
  "genders = [''female'', ''male'', ''other'', ''prefer_not_to_say'']"

definition users_step :: "GeneratorConfig \<Rightarrow> date \<Rightarrow> nat \<Rightarrow> rng \<Rightarrow> error + (user_row \<times> rng)" where
  "users_step cfg today i g =
     (let user_id = ''u_'' @ zero_pad 5 i in
      bindE (randint 1 (days cfg + 7) g) (\<lambda>(k, g1).
      bindE (timedelta_days k) (\<lambda>td.
      bindE (date_sub today td) (\<lambda>signup_date.
      bindE (choice subscription_tiers g1) (\<lambda>(subscription_tier, g2).
      bindE (choice age_groups g2) (\<lambda>(age_group, g3).
      bindE (choice genders g3) (\<lambda>(gender, g4).
      Inr ((user_id, signup_date, subscription_tier, age_group, gender), g4))))))))"

fun users_loop :: "GeneratorConfig \<Rightarrow> date \<Rightarrow> nat list \<Rightarrow> rng \<Rightarrow> error + (user_row list \<times> rng)" where
  "users_loop cfg today [] g = Inr ([], g)"
| "users_loop cfg today (i # rest) g =
     bindE (users_step cfg today i g) (\<lambda>(row, g1).
     bindE (users_loop cfg today rest g1) (\<lambda>(rows, g2).
     Inr (row # rows, g2)))"

definition generate_users :: "GeneratorConfig \<Rightarrow> datetime \<Rightarrow> rng \<Rightarrow> error + (user_row list \<times> rng)" where
  "generate_users cfg now g = users_loop cfg (date_of now) [0..<nat (users cfg)] g"

definition genres :: "string list" where
  "genres = [''drama'', ''comedy'', ''documentary'', ''action'', ''horror'', ''sci-fi'',
             ''fantasy'', ''romance'']"

definition videos_step :: "nat \<Rightarrow> rng \<Rightarrow> error + (video_row \<times> rng)" where
  "videos_step i g =
     (let video_id = ''v_'' @ zero_pad 5 i;
          title = ''Video '' @ str_nat i in
      bindE (choice genres g) (\<lambda>(genre, g1).
      bindE (randint 30 3600 g1) (\<lambda>(duration_seconds, g2).
      bindE (randint 1000 9999 g2) (\<lambda>(p, g3).
      Inr ((video_id, title, genre, duration_seconds, ''pat_'' @ str_int p), g3)))))"

fun videos_loop :: "nat list \<Rightarrow> rng \<Rightarrow> error + (video_row list \<times> rng)" where
  "videos_loop [] g = Inr ([], g)"
| "videos_loop (i # rest) g =
     bindE (videos_step i g) (\<lambda>(row, g1).
     bindE (videos_loop rest g1) (\<lambda>(rows, g2).
     Inr (row # rows, g2)))"

definition generate_videos :: "GeneratorConfig \<Rightarrow> rng \<Rightarrow> error + (video_row list \<times> rng)" where
  "generate_videos cfg g = videos_loop [0..<nat (videos cfg)] g"

definition generate_devices :: "device_row list" where
  "generate_devices =
     [(d, m, os).
        d \<leftarrow> [''mobile'', ''tablet'', ''desktop''],
        m \<leftarrow> [''A1'', ''A2'', ''B1'', ''B2'', ''C1''],
        os \<leftarrow> [''iOS 16'', ''Android 13'', ''Windows 11'', ''macOS 14'']]"

subsection \<open>Events\<close>

text \<open>One row of the event log: the dictionary the source appends, key by key.\<close>

record event =
  timestamp :: datetime
  account_id :: string
  user_id :: string
  video_id :: "string option"
  session_id :: string
  event_name :: string
  val :: "int option"
  device :: string
  device_os :: string
  app_version :: string
  network_type :: string
  ip :: string
  country :: string

text \<open>The values drawn once per session and repeated in each of its rows.\<close>

record session_attrs =
  sa_account_id :: string
  sa_user_id :: string
  sa_session_id :: string
  sa_device :: string
  sa_device_os :: string
  sa_app_version :: string
  sa_network_type :: string
  sa_ip :: string
  sa_country :: string

definition mk_row :: "session_attrs \<Rightarrow> datetime \<Rightarrow> string option \<Rightarrow> string \<Rightarrow> int option \<Rightarrow> event" where
  "mk_row a t vid name v =
     \<lparr>timestamp = t, account_id = sa_account_id a, user_id = sa_user_id a, video_id = vid,
      session_id = sa_session_id a, event_name = name, val = v, device = sa_device a,
      device_os = sa_device_os a, app_version = sa_app_version a,
      network_type = sa_network_type a, ip = sa_ip a, country = sa_country a\<rparr>"

text \<open>\<^verbatim>\<open>f"s_{user_id}_{s:04d}"\<close>\<close>

definition format_session_id :: "string \<Rightarrow> nat \<Rightarrow> string" where
  "format_session_id uid s = ''s_'' @ uid @ ''_'' @ zero_pad 4 s"

definition accounts :: "string list" where
  "accounts = [''acct_1'', ''acct_2'', ''acct_3'']"

definition device_types :: "string list" where
  "device_types = [''mobile'', ''tablet'', ''desktop'']"

definition device_os_options :: "string list" where
  "device_os_options = [''iOS'', ''Android'', ''Windows'', ''macOS'']"

definition app_versions :: "string list" where
  "app_versions = [''1.0.0'', ''1.1.0'', ''1.2.0'', ''2.0.0'', ''2.1.0'']"

definition network_types :: "string list" where
  "network_types = [''wifi'', ''4G'', ''5G'']"

definition countries :: "string list" where
  "countries = [''US'', ''CA'', ''GB'', ''DE'', ''FR'', ''BR'', ''IN'', ''AU'', ''JP'']"

text \<open>
  One pass of the chunk loop (lines 162-197): the pointer \<open>t\<close> advances, a
  \<^verbatim>\<open>watch_time\<close> row is appended, and after it a \<^verbatim>\<open>like\<close> or \<^verbatim>\<open>heart\<close> row when
  \<^verbatim>\<open>random.random() < 0.12\<close>. The result is the rows appended, the pointer and
  \<^verbatim>\<open>session_watch_seconds\<close>.
\<close>

definition chunk_step ::
  "session_attrs \<Rightarrow> string list \<Rightarrow> datetime \<Rightarrow> int \<Rightarrow> rng
     \<Rightarrow> error + (event list \<times> datetime \<times> int \<times> rng)" where
  "chunk_step a watched_videos t session_watch_seconds g =
     bindE (randint 1 50 g) (\<lambda>(step, g1).
     bindE (timedelta_seconds step) (\<lambda>td.
     bindE (datetime_add t td) (\<lambda>t1.
     (case int_exponential g1 of (x, g2) \<Rightarrow>
     (let v = int x + 1 in
      bindE (choice watched_videos g2) (\<lambda>(vid, g3).
      (case random_53 g3 of (r, g4) \<Rightarrow>
         if lt_0_12 r then
           bindE (timedelta_seconds 1) (\<lambda>td1.
           bindE (datetime_add t1 td1) (\<lambda>t2.
           bindE (choice watched_videos g4) (\<lambda>(vid2, g5).
           bindE (choice [''like'', ''heart''] g5) (\<lambda>(name, g6).
           Inr ([mk_row a t1 (Some vid) ''watch_time'' (Some v),
                 mk_row a t2 (Some vid2) name None],
                t1, session_watch_seconds + v, g6)))))
         else Inr ([mk_row a t1 (Some vid) ''watch_time'' (Some v)],
                   t1, session_watch_seconds + v, g4))))))))"

fun chunks_loop ::
  "session_attrs \<Rightarrow> string list \<Rightarrow> nat \<Rightarrow> datetime \<Rightarrow> int \<Rightarrow> rng
     \<Rightarrow> error + (event list \<times> datetime \<times> int \<times> rng)" where
  "chunks_loop a watched_videos 0 t sws g = Inr ([], t, sws, g)"
| "chunks_loop a watched_videos (Suc n) t sws g =
     bindE (chunk_step a watched_videos t sws g) (\<lambda>(rows1, t1, sws1, g1).
     bindE (chunks_loop a watched_videos n t1 sws1 g1) (\<lambda>(rows2, t2, sws2, g2).
     Inr (rows1 @ rows2, t2, sws2, g2)))"

text \<open>
  One pass of the session loop (lines 113-216), in two parts: the session-scoped values
  are drawn (lines 114-121), then the rows are appended (lines 123-216). The result is
  the rows appended, \<^verbatim>\<open>first_login_emitted\<close> and the next \<^verbatim>\<open>session_time\<close>.
\<close>

definition draw_session_attrs :: "string \<Rightarrow> nat \<Rightarrow> rng \<Rightarrow> error + (session_attrs \<times> rng)" where
  "draw_session_attrs uid s g =
     bindE (choice accounts g) (\<lambda>(account, g1).
     bindE (choice device_types g1) (\<lambda>(dev, g2).
     bindE (choice device_os_options g2) (\<lambda>(dev_os, g3).
     bindE (choice app_versions g3) (\<lambda>(app, g4).
     bindE (choice network_types g4) (\<lambda>(network, g5).
     bindE (randint 0 255 g5) (\<lambda>(ip1, g6).
     bindE (randint 0 255 g6) (\<lambda>(ip2, g7).
     bindE (randint 1 254 g7) (\<lambda>(ip3, g8).
     bindE (choice countries g8) (\<lambda>(ctry, g9).
     Inr (\<lparr>sa_account_id = account, sa_user_id = uid,
            sa_session_id = format_session_id uid s,
            sa_device = dev, sa_device_os = dev_os, sa_app_version = app,
            sa_network_type = network,
            sa_ip = ''10.'' @ str_int ip1 @ ''.'' @ str_int ip2 @ ''.'' @ str_int ip3,
            sa_country = ctry\<rparr>, g9))))))))))"

definition session_step ::
  "string list \<Rightarrow> string \<Rightarrow> nat \<Rightarrow> bool \<Rightarrow> datetime \<Rightarrow> rng
     \<Rightarrow> error + (event list \<times> bool \<times> datetime \<times> rng)" where
  "session_step video_ids uid s first_login_emitted session_time g =
     bindE (draw_session_attrs uid s g) (\<lambda>(a, g9).
     bindE (if \<not> first_login_emitted
            then bindE (timedelta_minutes 5) (\<lambda>td.
                 bindE (datetime_sub session_time td) (\<lambda>t0.
                 Inr [mk_row a t0 None ''first_login'' None]))
            else Inr []) (\<lambda>login_rows.
     bindE (randint 1 10 g9) (\<lambda>(num_chunks, g10).
     bindE (randint 1 4 g10) (\<lambda>(k, g11).
     bindE (sample video_ids (min (int (length video_ids)) k) g11) (\<lambda>(watched_videos, g12).
     bindE (chunks_loop a watched_videos (nat num_chunks) session_time 0 g12)
       (\<lambda>(chunk_rows, t, session_watch_seconds, g13).
     bindE (randint 0 60 g13) (\<lambda>(slack, g14).
     bindE (timedelta_seconds (session_watch_seconds + slack)) (\<lambda>td.
     bindE (datetime_add session_time td) (\<lambda>end_time.
     bindE (randint 10 600 g14) (\<lambda>(gap, g15).
     bindE (timedelta_minutes gap) (\<lambda>td2.
     bindE (datetime_add end_time td2) (\<lambda>next_time.
     Inr (login_rows @ [mk_row a session_time None ''session_start'' None] @ chunk_rows
            @ [mk_row a end_time None ''session_end'' None],
          True, next_time, g15)))))))))))))"

fun sessions_loop ::
  "string list \<Rightarrow> string \<Rightarrow> nat list \<Rightarrow> bool \<Rightarrow> datetime \<Rightarrow> rng
     \<Rightarrow> error + (event list \<times> bool \<times> datetime \<times> rng)" where
  "sessions_loop video_ids uid [] fle t g = Inr ([], fle, t, g)"
| "sessions_loop video_ids uid (s # rest) fle t g =
     bindE (session_step video_ids uid s fle t g) (\<lambda>(rows1, fle1, t1, g1).
     bindE (sessions_loop video_ids uid rest fle1 t1 g1) (\<lambda>(rows2, fle2, t2, g2).
     Inr (rows1 @ rows2, fle2, t2, g2)))"

text \<open>One pass of the user loop (lines 107-216).\<close>

definition user_step ::
  "GeneratorConfig \<Rightarrow> datetime \<Rightarrow> string list \<Rightarrow> string \<Rightarrow> rng \<Rightarrow> error + (event list \<times> rng)" where
  "user_step cfg base_dt video_ids uid g =
     (case poisson g of (p, g1) \<Rightarrow>
     (let num_sessions = p + 1 in
      bindE (randint 0 (days cfg * 24) g1) (\<lambda>(h, g2).
      bindE (timedelta_hours h) (\<lambda>td.
      bindE (datetime_add base_dt td) (\<lambda>session_time.
      bindE (sessions_loop video_ids uid [0..<num_sessions] False session_time g2)
        (\<lambda>(rows, fle, t, g3).
      Inr (rows, g3)))))))"

fun events_loop ::
  "GeneratorConfig \<Rightarrow> datetime \<Rightarrow> string list \<Rightarrow> string list \<Rightarrow> rng \<Rightarrow> error + (event list \<times> rng)" where
  "events_loop cfg base_dt video_ids [] g = Inr ([], g)"
| "events_loop cfg base_dt video_ids (uid # rest) g =
     bindE (user_step cfg base_dt video_ids uid g) (\<lambda>(rows1, g1).
     bindE (events_loop cfg base_dt video_ids rest g1) (\<lambda>(rows2, g2).
     Inr (rows1 @ rows2, g2)))"

definition generate_events ::
  "GeneratorConfig \<Rightarrow> datetime \<Rightarrow> user_row list \<Rightarrow> video_row list \<Rightarrow> rng
     \<Rightarrow> error + (event list \<times> rng)" where
  "generate_events cfg now users_df videos_df g =
     bindE (timedelta_days (days cfg)) (\<lambda>td.
     bindE (datetime_sub now td) (\<lambda>base_dt.
     events_loop cfg base_dt (map fst videos_df) (map fst users_df) g))"

subsection \<open>The run\<close>

text \<open>
  What a run reads from outside: the raw sequence each generator produces for a seed, and
  the two readings of the clock (by \<^verbatim>\<open>generate_users\<close>, then by \<^verbatim>\<open>generate_events\<close>).
  \<^verbatim>\<open>np.random.seed\<close> accepts a seed in \<open>[0, 2^32)\<close> only. The file system is taken to
  accept every write; what is written to each file is the table or the log.
\<close>

record environment =
  py_seed :: "int \<Rightarrow> nat \<Rightarrow> nat"
  np_seed :: "int \<Rightarrow> nat \<Rightarrow> nat"
  now_users :: datetime
  now_events :: datetime

record outputs =
  users_csv :: "user_row list"
  videos_csv :: "video_row list"
  devices_csv :: "device_row list"
  events_jsonl :: "event list"

text \<open>\<^verbatim>\<open>random.seed(cfg.seed); np.random.seed(cfg.seed)\<close> (lines 222-223).\<close>

definition seed_generators :: "environment \<Rightarrow> int \<Rightarrow> error + rng" where
  "seed_generators env s =
     (if s < 0 \<or> 2 ^ 32 \<le> s then Inl ValueError
      else Inr \<lparr>py_src = py_seed env s, py_pos = 0, np_src = np_seed env s, np_pos = 0\<rparr>)"

definition write_outputs :: "environment \<Rightarrow> GeneratorConfig \<Rightarrow> error + outputs" where
  "write_outputs env cfg =
     bindE (seed_generators env (seed cfg)) (\<lambda>g.
     bindE (generate_users cfg (now_users env) g) (\<lambda>(users_df, g1).
     bindE (generate_videos cfg g1) (\<lambda>(videos_df, g2).
     (let devices_df = generate_devices in
      bindE (generate_events cfg (now_events env) users_df videos_df g2) (\<lambda>(events, g3).
      Inr \<lparr>users_csv = users_df, videos_csv = videos_df, devices_csv = devices_df,
           events_jsonl = events\<rparr>)))))"

section \<open>Vocabulary of the properties\<close>

definition in_session :: "event \<Rightarrow> bool" where
  "in_session e \<longleftrightarrow>
     event_name e = ''watch_time'' \<or> event_name e = ''like'' \<or> event_name e = ''heart''"

definition is_engagement :: "event \<Rightarrow> bool" where
  "is_engagement e \<longleftrightarrow> event_name e = ''like'' \<or> event_name e = ''heart''"

definition is_watch :: "event \<Rightarrow> bool" where
  "is_watch e \<longleftrightarrow> event_name e = ''watch_time''"

definition watch_value :: "event \<Rightarrow> int" where
  "watch_value e = (case val e of None \<Rightarrow> 0 | Some v \<Rightarrow> v)"

text \<open>The sum of the values of the \<^verbatim>\<open>watch_time\<close> rows of a list.\<close>

definition watch_total :: "event list \<Rightarrow> int" where
  "watch_total rows = sum_list (map watch_value (filter is_watch rows))"

text \<open>A row with its timestamp moved by \<open>d\<close> microseconds, a user row with its date moved by \<open>d\<close> days.\<close>

definition shift_event :: "int \<Rightarrow> event \<Rightarrow> event" where
  "shift_event d e = e\<lparr>timestamp := timestamp e + d\<rparr>"

definition shift_user :: "int \<Rightarrow> user_row \<Rightarrow> user_row" where
  "shift_user d r = (case r of (uid, signup, rest) \<Rightarrow> (uid, signup + d, rest))"

text \<open>The value of a string of decimal digits, read left to right.\<close>

definition digit_val :: "char \<Rightarrow> nat" where
  "digit_val c = of_char c - 48"

definition nat_of_digits :: "string \<Rightarrow> nat" where
  "nat_of_digits cs = foldl (\<lambda>acc c. 10 * acc + digit_val c) 0 cs"

text \<open>
  Every \<^verbatim>\<open>like\<close> or \<^verbatim>\<open>heart\<close> row of a list comes right after a \<^verbatim>\<open>watch_time\<close> row of
  the same session, one second later; \<open>prev\<close> is the row before the list, if any.
\<close>

fun follows_ok :: "event option \<Rightarrow> event list \<Rightarrow> bool" where
  "follows_ok prev [] = True"
| "follows_ok prev (e # es) =
     ((is_engagement e \<longrightarrow>
         (case prev of None \<Rightarrow> False
          | Some w \<Rightarrow> is_watch w \<and> session_id w = session_id e
                       \<and> timestamp e = timestamp w + us_per_second))
      \<and> follows_ok (Some e) es)"

text \<open>
  The rows the chunk loop appends for the session of attributes \<open>a\<close> with watched videos
  \<open>w\<close>, started with the pointer at \<open>t\<close>.
\<close>

definition chunk_row :: "session_attrs \<Rightarrow> string list \<Rightarrow> event \<Rightarrow> bool" where
  "chunk_row a w e \<longleftrightarrow>
     (\<exists>t vid. vid \<in> set w \<and>
        ((\<exists>v. 1 \<le> v \<and> e = mk_row a t (Some vid) ''watch_time'' (Some v))
         \<or> e = mk_row a t (Some vid) ''like'' None
         \<or> e = mk_row a t (Some vid) ''heart'' None))"

definition chunk_rows :: "session_attrs \<Rightarrow> string list \<Rightarrow> datetime \<Rightarrow> event list \<Rightarrow> bool" where
  "chunk_rows a w t rows \<longleftrightarrow>
     (\<forall>e \<in> set rows. chunk_row a w e \<and> t + us_per_second \<le> timestamp e)
     \<and> sorted (map timestamp rows) \<and> follows_ok None rows"

text \<open>
  The rows one pass of the session loop appends: for user \<open>uid\<close>, session index \<open>s\<close>, with
  \<^verbatim>\<open>first_login_emitted\<close> = \<open>fle\<close> and \<^verbatim>\<open>session_time\<close> = \<open>t\<close> on entry and \<^verbatim>\<open>session_time\<close> =
  \<open>t'\<close> on exit.
\<close>

definition session_block ::
  "string list \<Rightarrow> string \<Rightarrow> nat \<Rightarrow> bool \<Rightarrow> datetime \<Rightarrow> event list \<Rightarrow> datetime \<Rightarrow> bool" where
  "session_block video_ids uid s fle t rows t' \<longleftrightarrow>
     (\<exists>a w chunks slack gap.
        sa_user_id a = uid \<and> sa_session_id a = format_session_id uid s \<and>
        rows = (if fle then [] else [mk_row a (t - 5 * us_per_minute) None ''first_login'' None])
               @ [mk_row a t None ''session_start'' None] @ chunks
               @ [mk_row a (t + (watch_total chunks + slack) * us_per_second) None
                    ''session_end'' None] \<and>
        chunk_rows a w t chunks \<and>
        1 \<le> length (filter is_watch chunks) \<and> length (filter is_watch chunks) \<le> 10 \<and>
        set w \<subseteq> set video_ids \<and> length w \<le> 4 \<and> (distinct video_ids \<longrightarrow> distinct w) \<and>
        0 \<le> slack \<and> slack \<le> 60 \<and> 10 \<le> gap \<and> gap \<le> 600 \<and>
        t' = t + (watch_total chunks + slack) * us_per_second + gap * us_per_minute)"

text \<open>The rows of the session loop over the indices \<open>ss\<close>, and of the user loop.\<close>

inductive sessions_tr ::
  "string list \<Rightarrow> string \<Rightarrow> nat list \<Rightarrow> bool \<Rightarrow> datetime \<Rightarrow> event list \<Rightarrow> datetime \<Rightarrow> bool" where
  sessions_nil: "sessions_tr video_ids uid [] fle t [] t"
| sessions_cons:
    "session_block video_ids uid s fle t rows1 t1 \<Longrightarrow>
     sessions_tr video_ids uid ss True t1 rows2 t2 \<Longrightarrow>
     sessions_tr video_ids uid (s # ss) fle t (rows1 @ rows2) t2"

inductive log_tr :: "int \<Rightarrow> datetime \<Rightarrow> string list \<Rightarrow> string list \<Rightarrow> event list \<Rightarrow> bool" where
  log_nil: "log_tr dys base video_ids [] []"
| log_cons:
    "sessions_tr video_ids uid [0..<Suc p] False (base + h * us_per_hour) rows1 t' \<Longrightarrow>
     0 \<le> h \<Longrightarrow> h \<le> dys * 24 \<Longrightarrow>
     log_tr dys base video_ids uids rows2 \<Longrightarrow>
     log_tr dys base video_ids (uid # uids) (rows1 @ rows2)"

section \<open>Concrete runs\<close>

text \<open>
  A run of the configuration \<^verbatim>\<open>--days 1 --users 1 --videos 2 --seed 42\<close> at 2024-01-01T00:00:00,
  for generators whose raw draws are all 0 (\<^verbatim>\<open>random\<close>) and all 1 (\<^verbatim>\<open>numpy.random\<close>): every
  \<^verbatim>\<open>randint\<close> is its lower bound, every \<^verbatim>\<open>choice\<close> the first element, the user has two
  sessions of one chunk each, and each chunk is followed by a \<^verbatim>\<open>like\<close>.
\<close>

definition env_a :: environment where
  "env_a = \<lparr>py_seed = (\<lambda>s n. 0), np_seed = (\<lambda>s n. 1),
            now_users = 63839664000000000, now_events = 63839664000000000\<rparr>"

definition cfg_a :: GeneratorConfig where
  "cfg_a = \<lparr>out_dir = ''data'', days = 1, users = 1, videos = 2, seed = 42\<rparr>"

definition row_a :: "datetime \<Rightarrow> string \<Rightarrow> string option \<Rightarrow> string \<Rightarrow> int option \<Rightarrow> event" where
  "row_a t sid vid name v =
     \<lparr>timestamp = t, account_id = ''acct_1'', user_id = ''u_00000'', video_id = vid,
      session_id = sid, event_name = name, val = v, device = ''mobile'', device_os = ''iOS'',
      app_version = ''1.0.0'', network_type = ''wifi'', ip = ''10.0.0.1'', country = ''US''\<rparr>"

definition log_a :: "event list" where
  "log_a =
     [row_a 63839577300000000 ''s_u_00000_0000'' None ''first_login'' None,
      row_a 63839577600000000 ''s_u_00000_0000'' None ''session_start'' None,
      row_a 63839577601000000 ''s_u_00000_0000'' (Some ''v_00000'') ''watch_time'' (Some 2),
      row_a 63839577602000000 ''s_u_00000_0000'' (Some ''v_00000'') ''like'' None,
      row_a 63839577602000000 ''s_u_00000_0000'' None ''session_end'' None,
      row_a 63839578202000000 ''s_u_00000_0001'' None ''session_start'' None,
      row_a 63839578203000000 ''s_u_00000_0001'' (Some ''v_00000'') ''watch_time'' (Some 2),
      row_a 63839578204000000 ''s_u_00000_0001'' (Some ''v_00000'') ''like'' None,
      row_a 63839578204000000 ''s_u_00000_0001'' None ''session_end'' None]"

definition out_a :: outputs where
  "out_a =
     \<lparr>users_csv = [(''u_00000'', 738884, ''free'', ''18-24'', ''female'')],
      videos_csv = [(''v_00000'', ''Video 0'', ''drama'', 30, ''pat_1000''),
                    (''v_00001'', ''Video 1'', ''drama'', 30, ''pat_1000'')],
      devices_csv = generate_devices,
      events_jsonl = log_a\<rparr>"

text \<open>
  The same run one day later: only the two readings of the clock differ.
\<close>

definition env_b :: environment where
  "env_b = \<lparr>py_seed = (\<lambda>s n. 0), np_seed = (\<lambda>s n. 1),
            now_users = 63839750400000000, now_events = 63839750400000000\<rparr>"

definition out_b :: outputs where
  "out_b =
     \<lparr>users_csv = [(''u_00000'', 738885, ''free'', ''18-24'', ''female'')],
      videos_csv = [(''v_00000'', ''Video 0'', ''drama'', 30, ''pat_1000''),
                    (''v_00001'', ''Video 1'', ''drama'', 30, ''pat_1000'')],
      devices_csv = generate_devices,
      events_jsonl = map (shift_event 86400000000) log_a\<rparr>"

text \<open>
  A run of \<^verbatim>\<open>--days 1 --users 1 --videos 1\<close> in which the pointer of the only chunk
  advances by 50 seconds (the raw draw at position 20 is 49) and the watch value is 1.
\<close>

definition env_c :: environment where
  "env_c = \<lparr>py_seed = (\<lambda>s n. if n = 20 then 49 else 0), np_seed = (\<lambda>s n. 0),
            now_users = 63839664000000000, now_events = 63839664000000000\<rparr>"

definition cfg_c :: GeneratorConfig where
  "cfg_c = \<lparr>out_dir = ''data'', days = 1, users = 1, videos = 1, seed = 42\<rparr>"

definition log_c :: "event list" where
  "log_c =
     [row_a 63839577300000000 ''s_u_00000_0000'' None ''first_login'' None,
      row_a 63839577600000000 ''s_u_00000_0000'' None ''session_start'' None,
      row_a 63839577650000000 ''s_u_00000_0000'' (Some ''v_00000'') ''watch_time'' (Some 1),
      row_a 63839577651000000 ''s_u_00000_0000'' (Some ''v_00000'') ''like'' None,
      row_a 63839577601000000 ''s_u_00000_0000'' None ''session_end'' None]"

definition out_c :: outputs where
  "out_c =
     \<lparr>users_csv = [(''u_00000'', 738884, ''free'', ''18-24'', ''female'')],
      videos_csv = [(''v_00000'', ''Video 0'', ''drama'', 30, ''pat_1000'')],
      devices_csv = generate_devices,
      events_jsonl = log_c\<rparr>"

text \<open>
  A run of the same configuration in which the hour offset of the user's cursor is drawn
  as 24 (the raw draw at position 7 is 24).
\<close>

definition env_d :: environment where
  "env_d = \<lparr>py_seed = (\<lambda>s n. if n = 7 then 24 else 0), np_seed = (\<lambda>s n. 0),
            now_users = 63839664000000000, now_events = 63839664000000000\<rparr>"

definition log_d :: "event list" where
  "log_d =
     [row_a 63839663700000000 ''s_u_00000_0000'' None ''first_login'' None,
      row_a 63839664000000000 ''s_u_00000_0000'' None ''session_start'' None,
      row_a 63839664001000000 ''s_u_00000_0000'' (Some ''v_00000'') ''watch_time'' (Some 1),
      row_a 63839664002000000 ''s_u_00000_0000'' (Some ''v_00000'') ''like'' None,
      row_a 63839664001000000 ''s_u_00000_0000'' None ''session_end'' None]"

definition out_d :: outputs where
  "out_d =
     \<lparr>users_csv = [(''u_00000'', 738884, ''free'', ''18-24'', ''female'')],
      videos_csv = [(''v_00000'', ''Video 0'', ''drama'', 30, ''pat_1000'')],
      devices_csv = generate_devices,
      events_jsonl = log_d\<rparr>"

text \<open>Configurations with a count that is not positive.\<close>

definition cfg_zero :: GeneratorConfig where
  "cfg_zero = \<lparr>out_dir = ''data'', days = 0, users = 0, videos = 0, seed = 42\<rparr>"

definition cfg_no_videos :: GeneratorConfig where
  "cfg_no_videos = \<lparr>out_dir = ''data'', days = 1, users = 1, videos = 0, seed = 42\<rparr>"

definition cfg_negative_days :: GeneratorConfig where
  "cfg_negative_days = \<lparr>out_dir = ''data'', days = - 1, users = 1, videos = 2, seed = 42\<rparr>"

definition out_zero :: outputs where
  "out_zero = \<lparr>users_csv = [], videos_csv = [], devices_csv = generate_devices, events_jsonl = []\<rparr>"

section \<open>Library calls\<close>

lemma bindE_Inr_iff [simp]: "bindE m f = Inr y \<longleftrightarrow> (\<exists>x. m = Inr x \<and> f x = Inr y)"
  by (cases m) (simp_all add: bindE_def)

lemma bindE_Inr [simp]: "bindE (Inr x) f = f x"
  by (simp add: bindE_def)

lemma bindE_Inl [simp]: "bindE (Inl e) f = Inl e"
  by (simp add: bindE_def)

lemma randint_Inr: 
  assumes "randint a b g = Inr (x, g')" shows "a \<le> x \<and> x \<le> b"
proof -
  from assms have ab: "a \<le> b" by (auto simp: randint_def split: if_splits)
  obtain r g1 where n: "py_next g = (r, g1)" by (cases "py_next g")
  from assms ab n have x: "x = a + int (r mod nat (b - a + 1))"
    by (simp add: randint_def)
  have "0 < nat (b - a + 1)" using ab by simp
  then have "r mod nat (b - a + 1) < nat (b - a + 1)" by (rule mod_less_divisor)
  then have "int (r mod nat (b - a + 1)) < b - a + 1" using ab by linarith
  with x show ?thesis by simp
qed

lemma choice_Inr: "choice xs g = Inr (x, g') \<Longrightarrow> x \<in> set xs"
  unfolding choice_def by (auto split: if_splits prod.splits)

lemma sample_pick_props:
  "sample_pick pool k g = (ys, g') \<Longrightarrow> k \<le> length pool \<Longrightarrow>
     set ys \<subseteq> set pool \<and> length ys = k \<and> (distinct pool \<longrightarrow> distinct ys)"
proof (induction pool k g arbitrary: ys g' rule: sample_pick.induct)
  case (1 pool g)
  then show ?case by simp
next
  case (2 pool k g)
  obtain r g1 where n: "py_next g = (r, g1)" by (cases "py_next g")
  define j where "j = r mod length pool"
  define pool' where "pool' = take j pool @ drop (Suc j) pool"
  obtain rest g2 where rec: "sample_pick pool' k g1 = (rest, g2)" by (cases "sample_pick pool' k g1")
  from "2.prems"(2) have len: "0 < length pool" by (cases pool) simp_all
  then have j: "j < length pool" by (simp add: j_def)
  from "2.prems"(1) n rec have ys: "ys = pool ! j # rest" by (simp add: j_def pool'_def)
  have lp: "length pool' = length pool - 1" using j by (simp add: pool'_def)
  have kl: "k \<le> length pool'" using "2.prems"(2) lp by simp
  have ih: "set rest \<subseteq> set pool' \<and> length rest = k \<and> (distinct pool' \<longrightarrow> distinct rest)"
    using "2.IH"[OF n[symmetric], of rest g2] rec kl by (simp add: pool'_def j_def)
  have sub: "set pool' \<subseteq> set pool"
    unfolding pool'_def using set_take_subset[of j pool] set_drop_subset[of "Suc j" pool] by auto
  have d: "distinct pool' \<and> pool ! j \<notin> set pool'" if dp: "distinct pool"
  proof -
    have "pool = take j pool @ pool ! j # drop (Suc j) pool" using j by (simp add: id_take_nth_drop)
    with dp have "distinct (take j pool @ pool ! j # drop (Suc j) pool)" by simp
    then show ?thesis unfolding pool'_def by auto
  qed
  have mem: "pool ! j \<in> set pool" using j by simp
  show ?case using ys ih sub d mem by auto
qed

lemma sample_Inr:
  assumes "sample xs k g = Inr (ys, g')"
  shows "set ys \<subseteq> set xs \<and> int (length ys) = k \<and> (distinct xs \<longrightarrow> distinct ys)"
proof -
  from assms have k: "0 \<le> k" "k \<le> int (length xs)" and sp: "sample_pick xs (nat k) g = (ys, g')"
    by (auto simp: sample_def split: if_splits)
  from k have "nat k \<le> length xs" by simp
  from sample_pick_props[OF sp this] k show ?thesis by simp
qed

section \<open>The chunk loop\<close>

lemma timedelta_us_Inr: "timedelta_us us = Inr td \<Longrightarrow> td = us"
  by (simp add: timedelta_us_def split: if_splits)

lemma timedelta_days_Inr: "timedelta_days n = Inr td \<Longrightarrow> td = n * us_per_day"
  by (auto simp: timedelta_days_def dest: timedelta_us_Inr)

lemma timedelta_hours_Inr: "timedelta_hours n = Inr td \<Longrightarrow> td = n * us_per_hour"
  by (auto simp: timedelta_hours_def dest: timedelta_us_Inr)

lemma timedelta_minutes_Inr: "timedelta_minutes n = Inr td \<Longrightarrow> td = n * us_per_minute"
  by (auto simp: timedelta_minutes_def dest: timedelta_us_Inr)

lemma timedelta_seconds_Inr: "timedelta_seconds n = Inr td \<Longrightarrow> td = n * us_per_second"
  by (auto simp: timedelta_seconds_def dest: timedelta_us_Inr)

lemma datetime_add_Inr: "datetime_add t d = Inr t' \<Longrightarrow> t' = t + d"
  by (simp add: datetime_add_def datetime_range_def split: if_splits)

lemma datetime_sub_Inr: "datetime_sub t d = Inr t' \<Longrightarrow> t' = t - d"
  by (simp add: datetime_sub_def datetime_range_def split: if_splits)

lemma mk_row_sel [simp]:
  "timestamp (mk_row a t vid name v) = t"
  "user_id (mk_row a t vid name v) = sa_user_id a"
  "session_id (mk_row a t vid name v) = sa_session_id a"
  "video_id (mk_row a t vid name v) = vid"
  "event_name (mk_row a t vid name v) = name"
  "val (mk_row a t vid name v) = v"
  by (simp_all add: mk_row_def)

lemma chunk_step_Inr:
  assumes "chunk_step a w t sws g = Inr (rows, t1, sws1, g1)"
  shows "\<exists>step v vid. 1 \<le> step \<and> step \<le> 50 \<and> t1 = t + step * us_per_second \<and> 1 \<le> v \<and>
           sws1 = sws + v \<and> vid \<in> set w \<and>
           (rows = [mk_row a t1 (Some vid) ''watch_time'' (Some v)] \<or>
            (\<exists>vid2 name. vid2 \<in> set w \<and> (name = ''like'' \<or> name = ''heart'') \<and>
               rows = [mk_row a t1 (Some vid) ''watch_time'' (Some v),
                       mk_row a (t1 + us_per_second) (Some vid2) name None]))"
proof -
  from assms obtain step g1' td t1' vid g3 where
    ri: "randint 1 50 g = Inr (step, g1')" and td: "timedelta_seconds step = Inr td"
    and da: "datetime_add t td = Inr t1'"
    and ch: "choice w (snd (int_exponential g1')) = Inr (vid, g3)"
    and rest: "(if lt_0_12 (fst (random_53 g3)) then
           bindE (timedelta_seconds 1) (\<lambda>td1.
           bindE (datetime_add t1' td1) (\<lambda>t2.
           bindE (choice w (snd (random_53 g3))) (\<lambda>(vid2, g5).
           bindE (choice [''like'', ''heart''] g5) (\<lambda>(name, g6).
           Inr ([mk_row a t1' (Some vid) ''watch_time'' (Some (int (fst (int_exponential g1')) + 1)),
                 mk_row a t2 (Some vid2) name None],
                t1', sws + (int (fst (int_exponential g1')) + 1), g6)))))
         else Inr ([mk_row a t1' (Some vid) ''watch_time'' (Some (int (fst (int_exponential g1')) + 1))],
                   t1', sws + (int (fst (int_exponential g1')) + 1), snd (random_53 g3)))
        = Inr (rows, t1, sws1, g1)"
    unfolding chunk_step_def
    by (auto simp: Let_def split_beta cong: if_cong)
  define v where "v = int (fst (int_exponential g1')) + 1"
  have v: "1 \<le> v" by (simp add: v_def)
  have s: "1 \<le> step \<and> step \<le> 50" using randint_Inr[OF ri] .
  have t1': "t1' = t + step * us_per_second"
    using timedelta_seconds_Inr[OF td] datetime_add_Inr[OF da] by simp
  have vid: "vid \<in> set w" using choice_Inr[OF ch] .
  show ?thesis
  proof (cases "lt_0_12 (fst (random_53 g3))")
    case False
    with rest have "rows = [mk_row a t1' (Some vid) ''watch_time'' (Some v)]"
      "t1 = t1'" "sws1 = sws + v" by (auto simp: v_def)
    with s t1' vid v show ?thesis by (intro exI[of _ step] exI[of _ v] exI[of _ vid]) simp
  next
    case True
    with rest obtain td1 t2 vid2 g5 name g6 where
      td1: "timedelta_seconds 1 = Inr td1" and da2: "datetime_add t1' td1 = Inr t2"
      and ch2: "choice w (snd (random_53 g3)) = Inr (vid2, g5)"
      and ch3: "choice [''like'', ''heart''] g5 = Inr (name, g6)"
      and res: "rows = [mk_row a t1' (Some vid) ''watch_time'' (Some v),
                 mk_row a t2 (Some vid2) name None]" "t1 = t1'" "sws1 = sws + v"
      by (auto simp: v_def split_beta)
    have t2: "t2 = t1' + us_per_second"
      using timedelta_seconds_Inr[OF td1] datetime_add_Inr[OF da2] by simp
    have v2: "vid2 \<in> set w" using choice_Inr[OF ch2] .
    have nm: "name = ''like'' \<or> name = ''heart''" using choice_Inr[OF ch3] by auto
    show ?thesis using s t1' vid res t2 v2 nm v
      by (intro exI[of _ step] exI[of _ v] exI[of _ vid]) auto
  qed
qed

lemma follows_ok_weaken: "follows_ok None ys \<Longrightarrow> follows_ok p ys"
  by (cases ys) auto

lemma follows_ok_append:
  "follows_ok p (xs @ ys) \<longleftrightarrow>
     follows_ok p xs \<and> follows_ok (if xs = [] then p else Some (last xs)) ys"
  by (induction xs arbitrary: p) auto

lemma follows_ok_appendI:
  "follows_ok p xs \<Longrightarrow> follows_ok None ys \<Longrightarrow> follows_ok p (xs @ ys)"
  by (simp add: follows_ok_append follows_ok_weaken)

lemma chunk_rows_Nil [simp]: "chunk_rows a w t []"
  by (simp add: chunk_rows_def)

lemma chunk_rows_append:
  assumes "chunk_rows a w t xs" and "chunk_rows a w t1 ys" and "t \<le> t1"
    and "\<forall>e \<in> set xs. timestamp e \<le> t1 + us_per_second"
  shows "chunk_rows a w t (xs @ ys)"
proof -
  have "\<forall>x\<in>set xs. \<forall>y\<in>set ys. timestamp x \<le> timestamp y"
    using assms unfolding chunk_rows_def by fastforce
  then have "sorted (map timestamp (xs @ ys))"
    using assms(1,2) unfolding chunk_rows_def by (simp add: sorted_append)
  moreover have "follows_ok None (xs @ ys)"
    using assms(1,2) unfolding chunk_rows_def by (simp add: follows_ok_appendI)
  moreover have "\<forall>e \<in> set (xs @ ys). chunk_row a w e \<and> t + us_per_second \<le> timestamp e"
    using assms(1,2,3) unfolding chunk_rows_def by fastforce
  ultimately show ?thesis unfolding chunk_rows_def by simp
qed

lemma chunk_step_rows:
  assumes "chunk_step a w t sws g = Inr (rows, t1, sws1, g1)"
  shows "chunk_rows a w t rows \<and> (\<forall>e \<in> set rows. timestamp e \<le> t1 + us_per_second) \<and>
         length (filter is_watch rows) = 1 \<and> sws1 = sws + watch_total rows \<and> t \<le> t1"
proof -
  from chunk_step_Inr[OF assms] obtain step v vid where
    s: "1 \<le> step" "step \<le> 50" and t1: "t1 = t + step * us_per_second" and v: "1 \<le> v"
    and sws1: "sws1 = sws + v" and vid: "vid \<in> set w"
    and rows: "rows = [mk_row a t1 (Some vid) ''watch_time'' (Some v)] \<or>
            (\<exists>vid2 name. vid2 \<in> set w \<and> (name = ''like'' \<or> name = ''heart'') \<and>
               rows = [mk_row a t1 (Some vid) ''watch_time'' (Some v),
                       mk_row a (t1 + us_per_second) (Some vid2) name None])"
    by blast
  have tt: "t + us_per_second \<le> t1" using s t1 by (simp add: us_per_second_def)
  have w: "chunk_row a w (mk_row a t1 (Some vid) ''watch_time'' (Some v))"
    unfolding chunk_row_def using vid v by blast
  from rows show ?thesis
  proof
    assume r: "rows = [mk_row a t1 (Some vid) ''watch_time'' (Some v)]"
    show ?thesis using r w tt sws1
      by (simp add: chunk_rows_def is_watch_def is_engagement_def watch_total_def
          watch_value_def us_per_second_def)
  next
    assume "\<exists>vid2 name. vid2 \<in> set w \<and> (name = ''like'' \<or> name = ''heart'') \<and>
               rows = [mk_row a t1 (Some vid) ''watch_time'' (Some v),
                       mk_row a (t1 + us_per_second) (Some vid2) name None]"
    then obtain vid2 name where v2: "vid2 \<in> set w" and nm: "name = ''like'' \<or> name = ''heart''"
      and r: "rows = [mk_row a t1 (Some vid) ''watch_time'' (Some v),
                       mk_row a (t1 + us_per_second) (Some vid2) name None]" by blast
    have e: "chunk_row a w (mk_row a (t1 + us_per_second) (Some vid2) name None)"
      unfolding chunk_row_def using v2 nm by blast
    show ?thesis using r w e tt sws1 nm
      by (auto simp: chunk_rows_def is_watch_def is_engagement_def watch_total_def
          watch_value_def us_per_second_def)
  qed
qed

lemma watch_total_append [simp]: "watch_total (xs @ ys) = watch_total xs + watch_total ys"
  by (simp add: watch_total_def)

lemma chunks_loop_rows:
  "chunks_loop a w n t sws g = Inr (rows, t', sws', g') \<Longrightarrow>
     chunk_rows a w t rows \<and> (\<forall>e \<in> set rows. timestamp e \<le> t' + us_per_second) \<and>
     length (filter is_watch rows) = n \<and> sws' = sws + watch_total rows \<and> t \<le> t'"
proof (induction n arbitrary: t sws g rows t' sws' g')
  case 0
  then show ?case by (simp add: watch_total_def)
next
  case (Suc n)
  from Suc.prems obtain rows1 t1 sws1 g1 rows2 where
    st: "chunk_step a w t sws g = Inr (rows1, t1, sws1, g1)"
    and lp: "chunks_loop a w n t1 sws1 g1 = Inr (rows2, t', sws', g')"
    and rows: "rows = rows1 @ rows2"
    by (auto split: prod.splits)
  note s = chunk_step_rows[OF st]
  note l = Suc.IH[OF lp]
  have "chunk_rows a w t rows"
    unfolding rows using s l by (intro chunk_rows_append[where ?t1.0 = t1]) simp_all
  moreover have "\<forall>e \<in> set rows. timestamp e \<le> t' + us_per_second"
    unfolding rows using s l by fastforce
  ultimately show ?case using s l rows by simp
qed

section \<open>The session, user and event loops\<close>

lemma draw_session_attrs_Inr:
  "draw_session_attrs uid s g = Inr (a, g') \<Longrightarrow>
     sa_user_id a = uid \<and> sa_session_id a = format_session_id uid s"
  unfolding draw_session_attrs_def by (auto simp: split_beta)

lemma session_step_Inr:
  assumes "session_step video_ids uid s fle t g = Inr (rows, fle', t', g')"
  shows "session_block video_ids uid s fle t rows t' \<and> fle' = True"
proof -
  from assms obtain a login_rows g9 num_chunks g10 k g11 w g12 chunks tp sws g13 slack g14
      td end_time gap g15 td2 where
    da: "draw_session_attrs uid s g = Inr (a, g9)"
    and lg: "(if \<not> fle
             then bindE (timedelta_minutes 5) (\<lambda>td.
                  bindE (datetime_sub t td) (\<lambda>t0.
                  Inr [mk_row a t0 None ''first_login'' None]))
             else Inr []) = Inr login_rows"
    and nc: "randint 1 10 g9 = Inr (num_chunks, g10)"
    and k: "randint 1 4 g10 = Inr (k, g11)"
    and sm: "sample video_ids (min (int (length video_ids)) k) g11 = Inr (w, g12)"
    and cl: "chunks_loop a w (nat num_chunks) t 0 g12 = Inr (chunks, tp, sws, g13)"
    and sl: "randint 0 60 g13 = Inr (slack, g14)"
    and td: "timedelta_seconds (sws + slack) = Inr td"
    and en: "datetime_add t td = Inr end_time"
    and gp: "randint 10 600 g14 = Inr (gap, g15)"
    and td2: "timedelta_minutes gap = Inr td2"
    and nx: "datetime_add end_time td2 = Inr t'"
    and rows: "rows = login_rows @ [mk_row a t None ''session_start'' None] @ chunks
             @ [mk_row a end_time None ''session_end'' None]"
    and fle': "fle' = True"
    unfolding session_step_def
    by (auto simp: Let_def split_beta cong: if_cong)
  note a = draw_session_attrs_Inr[OF da]
  have login: "login_rows = (if fle then [] else [mk_row a (t - 5 * us_per_minute) None ''first_login'' None])"
    using lg by (auto split: if_splits dest!: timedelta_minutes_Inr datetime_sub_Inr)
  note c = chunks_loop_rows[OF cl]
  have nch: "1 \<le> num_chunks \<and> num_chunks \<le> 10" using randint_Inr[OF nc] .
  have kk: "1 \<le> k \<and> k \<le> 4" using randint_Inr[OF k] .
  have slk: "0 \<le> slack \<and> slack \<le> 60" using randint_Inr[OF sl] .
  have gpp: "10 \<le> gap \<and> gap \<le> 600" using randint_Inr[OF gp] .
  have sws: "sws = watch_total chunks" using c by simp
  have endt: "end_time = t + (watch_total chunks + slack) * us_per_second"
    using timedelta_seconds_Inr[OF td] datetime_add_Inr[OF en] sws by simp
  have t': "t' = t + (watch_total chunks + slack) * us_per_second + gap * us_per_minute"
    using timedelta_minutes_Inr[OF td2] datetime_add_Inr[OF nx] endt by simp
  have nw: "1 \<le> length (filter is_watch chunks) \<and> length (filter is_watch chunks) \<le> 10"
    using c nch by auto
  have w: "set w \<subseteq> set video_ids \<and> length w \<le> 4 \<and> (distinct video_ids \<longrightarrow> distinct w)"
    using sample_Inr[OF sm] kk by auto
  show ?thesis
    unfolding session_block_def
    using a rows login endt t' c nw w slk gpp fle'
    by (intro conjI exI[of _ a] exI[of _ w] exI[of _ chunks] exI[of _ slack] exI[of _ gap]) simp_all
qed

lemma sessions_loop_tr:
  "sessions_loop video_ids uid ss fle t g = Inr (rows, fle', t', g') \<Longrightarrow>
     sessions_tr video_ids uid ss fle t rows t'"
proof (induction ss arbitrary: fle t g rows fle' t' g')
  case Nil
  then show ?case by (auto intro: sessions_nil)
next
  case (Cons s ss)
  from Cons.prems obtain rows1 fle1 t1 g1 rows2 where
    st: "session_step video_ids uid s fle t g = Inr (rows1, fle1, t1, g1)"
    and lp: "sessions_loop video_ids uid ss fle1 t1 g1 = Inr (rows2, fle', t', g')"
    and rows: "rows = rows1 @ rows2"
    by (auto split: prod.splits)
  from session_step_Inr[OF st] have b: "session_block video_ids uid s fle t rows1 t1"
    and f: "fle1 = True" by simp_all
  from Cons.IH[OF lp[unfolded f]] b show ?case unfolding rows by (rule sessions_cons[rotated])
qed

lemma user_step_tr:
  assumes "user_step cfg base_dt video_ids uid g = Inr (rows, g')"
  shows "\<exists>p h t'. sessions_tr video_ids uid [0..<Suc p] False (base_dt + h * us_per_hour) rows t'
           \<and> 0 \<le> h \<and> h \<le> days cfg * 24"
proof -
  from assms obtain h g2 td session_time fle t g3 where
    ri: "randint 0 (days cfg * 24) (snd (poisson g)) = Inr (h, g2)"
    and td: "timedelta_hours h = Inr td"
    and da: "datetime_add base_dt td = Inr session_time"
    and lp: "sessions_loop video_ids uid [0..<fst (poisson g) + 1] False session_time g2
              = Inr (rows, fle, t, g3)"
    unfolding user_step_def by (auto simp: Let_def split_beta)
  have st: "session_time = base_dt + h * us_per_hour"
    using timedelta_hours_Inr[OF td] datetime_add_Inr[OF da] by simp
  from sessions_loop_tr[OF lp] randint_Inr[OF ri] st show ?thesis
    by (intro exI[of _ "fst (poisson g)"] exI[of _ h] exI[of _ t]) simp
qed

lemma events_loop_tr:
  "events_loop cfg base_dt video_ids uids g = Inr (rows, g') \<Longrightarrow>
     log_tr (days cfg) base_dt video_ids uids rows"
proof (induction uids arbitrary: g rows g')
  case Nil
  then show ?case by (auto intro: log_nil)
next
  case (Cons uid uids)
  from Cons.prems obtain rows1 g1 rows2 where
    st: "user_step cfg base_dt video_ids uid g = Inr (rows1, g1)"
    and lp: "events_loop cfg base_dt video_ids uids g1 = Inr (rows2, g')"
    and rows: "rows = rows1 @ rows2"
    by (auto split: prod.splits)
  from user_step_tr[OF st] obtain p h t' where
    "sessions_tr video_ids uid [0..<Suc p] False (base_dt + h * us_per_hour) rows1 t'"
    "0 \<le> h" "h \<le> days cfg * 24" by blast
  then show ?case unfolding rows using Cons.IH[OF lp] by (rule log_cons)
qed

lemma generate_events_tr:
  assumes "generate_events cfg now users_df videos_df g = Inr (rows, g')"
  shows "log_tr (days cfg) (now - days cfg * us_per_day) (map fst videos_df) (map fst users_df) rows"
proof -
  from assms obtain td base_dt where td: "timedelta_days (days cfg) = Inr td"
    and ds: "datetime_sub now td = Inr base_dt"
    and lp: "events_loop cfg base_dt (map fst videos_df) (map fst users_df) g = Inr (rows, g')"
    unfolding generate_events_def by auto
  have "base_dt = now - days cfg * us_per_day"
    using timedelta_days_Inr[OF td] datetime_sub_Inr[OF ds] by simp
  with events_loop_tr[OF lp] show ?thesis by simp
qed

lemma users_loop_ids:
  "users_loop cfg today is g = Inr (rows, g') \<Longrightarrow>
     map fst rows = map (\<lambda>i. ''u_'' @ zero_pad 5 i) is"
proof (induction "is" arbitrary: g rows g')
  case Nil
  then show ?case by simp
next
  case (Cons i rest)
  from Cons.prems obtain row g1 rows2 where
    st: "users_step cfg today i g = Inr (row, g1)"
    and lp: "users_loop cfg today rest g1 = Inr (rows2, g')"
    and rows: "rows = row # rows2"
    by (auto split: prod.splits)
  from st have "fst row = ''u_'' @ zero_pad 5 i"
    unfolding users_step_def by (auto simp: Let_def split_beta)
  with Cons.IH[OF lp] rows show ?case by simp
qed

lemma videos_loop_ids:
  "videos_loop is g = Inr (rows, g') \<Longrightarrow>
     map fst rows = map (\<lambda>i. ''v_'' @ zero_pad 5 i) is"
proof (induction "is" arbitrary: g rows g')
  case Nil
  then show ?case by simp
next
  case (Cons i rest)
  from Cons.prems obtain row g1 rows2 where
    st: "videos_step i g = Inr (row, g1)"
    and lp: "videos_loop rest g1 = Inr (rows2, g')"
    and rows: "rows = row # rows2"
    by (auto split: prod.splits)
  from st have "fst row = ''v_'' @ zero_pad 5 i"
    unfolding videos_step_def by (auto simp: Let_def split_beta)
  with Cons.IH[OF lp] rows show ?case by simp
qed

section \<open>Identifiers\<close>

lemma digit_cases: "d < 10 \<Longrightarrow> d = 0 \<or> d = 1 \<or> d = 2 \<or> d = 3 \<or> d = 4 \<or> d = 5 \<or> d = 6 \<or> d = 7 \<or> d = 8 \<or> d = (9::nat)"
  by arith

lemma digit_val_digit_char: "d < 10 \<Longrightarrow> digit_val (digit_char d) = d"
  by (drule digit_cases) (auto simp: digit_char_def digit_val_def)

lemma digit_char_not_underscore: "d < 10 \<Longrightarrow> digit_char d \<noteq> CHR ''_''"
  by (drule digit_cases) (auto simp: digit_char_def)

lemma str_nat_no_underscore: "CHR ''_'' \<notin> set (str_nat n)"
proof (induction n rule: str_nat.induct)
  case (1 n)
  show ?case
  proof (cases "n < 10")
    case True
    then show ?thesis using digit_char_not_underscore[of n] by (simp add: str_nat.simps[of n])
  next
    case False
    have "n mod 10 < 10" by simp
    then have "digit_char (n mod 10) \<noteq> CHR ''_''" by (rule digit_char_not_underscore)
    with False "1.IH" show ?thesis by (auto simp: str_nat.simps[of n])
  qed
qed

lemma nat_of_digits_snoc: "nat_of_digits (cs @ [c]) = 10 * nat_of_digits cs + digit_val c"
  by (simp add: nat_of_digits_def)

lemma nat_of_digits_str_nat: "nat_of_digits (str_nat n) = n"
proof (induction n rule: str_nat.induct)
  case (1 n)
  show ?case
  proof (cases "n < 10")
    case True
    then show ?thesis
      using digit_val_digit_char[of n] by (simp add: str_nat.simps[of n] nat_of_digits_def)
  next
    case False
    have "digit_val (digit_char (n mod 10)) = n mod 10" by (rule digit_val_digit_char) simp
    with False "1.IH" show ?thesis by (simp add: str_nat.simps[of n] nat_of_digits_snoc)
  qed
qed

lemma nat_of_digits_zeros: "nat_of_digits (replicate k CHR ''0'' @ cs) = nat_of_digits cs"
proof -
  have "foldl (\<lambda>acc c. 10 * acc + digit_val c) 0 (replicate k CHR ''0'') = 0"
    by (induction k) (simp_all add: digit_val_def)
  then show ?thesis by (simp add: nat_of_digits_def)
qed

lemma nat_of_digits_zero_pad: "nat_of_digits (zero_pad w n) = n"
  by (simp add: zero_pad_def nat_of_digits_zeros nat_of_digits_str_nat)

lemma zero_pad_inj: "zero_pad w n = zero_pad w m \<Longrightarrow> n = m"
  by (metis nat_of_digits_zero_pad)

lemma zero_pad_no_underscore: "CHR ''_'' \<notin> set (zero_pad w n)"
  using str_nat_no_underscore[of n] by (auto simp: zero_pad_def)

lemma first_split_unique:
  "c \<notin> set xs \<Longrightarrow> c \<notin> set xs' \<Longrightarrow> xs @ c # ys = xs' @ c # ys' \<Longrightarrow> xs = xs' \<and> ys = ys'"
proof (induction xs arbitrary: xs')
  case Nil
  then show ?case by (cases xs') auto
next
  case (Cons x xs)
  then show ?case by (cases xs') auto
qed

lemma format_session_id_inj:
  assumes "format_session_id u s = format_session_id u' s'"
  shows "u = u' \<and> s = s'"
proof -
  from assms have "u @ CHR ''_'' # zero_pad 4 s = u' @ CHR ''_'' # zero_pad 4 s'"
    by (simp add: format_session_id_def)
  then have "rev (zero_pad 4 s) @ CHR ''_'' # rev u = rev (zero_pad 4 s') @ CHR ''_'' # rev u'"
    by (metis rev.simps(2) rev_append append_assoc append_Cons append_Nil)
  moreover have "CHR ''_'' \<notin> set (rev (zero_pad 4 s))" "CHR ''_'' \<notin> set (rev (zero_pad 4 s'))"
    using zero_pad_no_underscore by simp_all
  ultimately have "rev (zero_pad 4 s) = rev (zero_pad 4 s') \<and> rev u = rev u'"
    by (rule first_split_unique[rotated 2])
  then show ?thesis using zero_pad_inj by auto
qed

lemma format_session_id_eq_iff [simp]:
  "format_session_id u s = format_session_id u' s' \<longleftrightarrow> u = u' \<and> s = s'"
  using format_session_id_inj by blast

lemma distinct_ids: "distinct (map (\<lambda>i. p @ zero_pad w i) [0..<n])"
  by (auto simp: distinct_map inj_on_def dest: zero_pad_inj)

section \<open>One session's rows\<close>

lemma chunk_row_props:
  assumes "chunk_row a w e"
  shows "session_id e = sa_session_id a" "user_id e = sa_user_id a" "in_session e"
    "event_name e \<noteq> ''session_start''" "event_name e \<noteq> ''session_end''"
    "event_name e \<noteq> ''first_login''" "\<exists>vid \<in> set w. video_id e = Some vid"
    "val e \<noteq> None \<longleftrightarrow> event_name e = ''watch_time''"
    "is_watch e \<Longrightarrow> 1 \<le> watch_value e"
    "is_engagement e \<longleftrightarrow> \<not> is_watch e"
  using assms unfolding chunk_row_def in_session_def is_watch_def watch_value_def is_engagement_def
  by auto

lemma chunk_rows_rowD: "chunk_rows a w t rows \<Longrightarrow> e \<in> set rows \<Longrightarrow> chunk_row a w e"
  by (simp add: chunk_rows_def)

lemma chunk_rows_after: "chunk_rows a w t rows \<Longrightarrow> e \<in> set rows \<Longrightarrow> t < timestamp e"
  by (auto simp: chunk_rows_def us_per_second_def)

lemma chunk_rows_sorted: "chunk_rows a w t rows \<Longrightarrow> sorted (map timestamp rows)"
  by (simp add: chunk_rows_def)

lemma chunk_rows_follows: "chunk_rows a w t rows \<Longrightarrow> follows_ok None rows"
  by (simp add: chunk_rows_def)

lemma watch_total_nonneg:
  assumes "chunk_rows a w t rows" shows "0 \<le> watch_total rows"
proof -
  have "\<forall>e \<in> set (filter is_watch rows). 0 \<le> watch_value e"
    using assms chunk_row_props(9) chunk_rows_rowD by fastforce
  then show ?thesis unfolding watch_total_def by (intro sum_list_nonneg) auto
qed

text \<open>The anatomy of a session block, as an elimination rule.\<close>

lemma session_blockE:
  assumes "session_block video_ids uid s fle t rows t'"
  obtains a w chunks slack gap where
    "sa_user_id a = uid" "sa_session_id a = format_session_id uid s"
    "rows = (if fle then [] else [mk_row a (t - 5 * us_per_minute) None ''first_login'' None])
               @ [mk_row a t None ''session_start'' None] @ chunks
               @ [mk_row a (t + (watch_total chunks + slack) * us_per_second) None
                    ''session_end'' None]"
    "chunk_rows a w t chunks"
    "1 \<le> length (filter is_watch chunks)" "length (filter is_watch chunks) \<le> 10"
    "set w \<subseteq> set video_ids" "length w \<le> 4" "distinct video_ids \<longrightarrow> distinct w"
    "0 \<le> slack" "slack \<le> 60" "10 \<le> gap" "gap \<le> 600"
    "t' = t + (watch_total chunks + slack) * us_per_second + gap * us_per_minute"
  using assms unfolding session_block_def by blast

lemma block_ids:
  assumes "session_block video_ids uid s fle t rows t'" and "e \<in> set rows"
  shows "session_id e = format_session_id uid s \<and> user_id e = uid"
proof -
  from assms(1) obtain a w chunks slack gap where
    a: "sa_user_id a = uid" "sa_session_id a = format_session_id uid s"
    and rows: "rows = (if fle then [] else [mk_row a (t - 5 * us_per_minute) None ''first_login'' None])
               @ [mk_row a t None ''session_start'' None] @ chunks
               @ [mk_row a (t + (watch_total chunks + slack) * us_per_second) None
                    ''session_end'' None]"
    and ch: "chunk_rows a w t chunks"
    by (rule session_blockE)
  from assms(2) rows consider "e \<in> set chunks" | "\<exists>t0 vid name v. e = mk_row a t0 vid name v"
    by (auto split: if_splits)
  then show ?thesis
  proof cases
    case 1
    then show ?thesis using chunk_row_props(1,2)[OF chunk_rows_rowD[OF ch 1]] a by simp
  next
    case 2
    then show ?thesis using a by auto
  qed
qed

lemma block_filter_name:
  assumes "session_block video_ids uid s fle t rows t'"
  shows "length (filter (\<lambda>x. event_name x = ''session_start'') rows) = 1"
    and "length (filter (\<lambda>x. event_name x = ''session_end'') rows) = 1"
    and "length (filter (\<lambda>x. event_name x = ''first_login'') rows) = (if fle then 0 else 1)"
    and "1 \<le> length (filter is_watch rows)" and "length (filter is_watch rows) \<le> 10"
proof -
  from assms obtain a w chunks slack gap where
    rows: "rows = (if fle then [] else [mk_row a (t - 5 * us_per_minute) None ''first_login'' None])
               @ [mk_row a t None ''session_start'' None] @ chunks
               @ [mk_row a (t + (watch_total chunks + slack) * us_per_second) None
                    ''session_end'' None]"
    and ch: "chunk_rows a w t chunks"
    and n: "1 \<le> length (filter is_watch chunks)" "length (filter is_watch chunks) \<le> 10"
    by (rule session_blockE)
  have c: "\<forall>e \<in> set chunks. event_name e \<noteq> ''session_start'' \<and> event_name e \<noteq> ''session_end''
             \<and> event_name e \<noteq> ''first_login''"
    using chunk_row_props(4,5,6) chunk_rows_rowD[OF ch] by blast
  from c have f: "filter (\<lambda>x. event_name x = ''session_start'') chunks = []"
    "filter (\<lambda>x. event_name x = ''session_end'') chunks = []"
    "filter (\<lambda>x. event_name x = ''first_login'') chunks = []"
    by (simp_all add: filter_empty_conv)
  show "length (filter (\<lambda>x. event_name x = ''session_start'') rows) = 1"
    "length (filter (\<lambda>x. event_name x = ''session_end'') rows) = 1"
    "length (filter (\<lambda>x. event_name x = ''first_login'') rows) = (if fle then 0 else 1)"
    using f by (simp_all add: rows)
  show "1 \<le> length (filter is_watch rows)" "length (filter is_watch rows) \<le> 10"
    using n by (simp_all add: rows is_watch_def)
qed

lemma block_times:
  assumes "session_block video_ids uid s fle t rows t'"
  shows "\<forall>x \<in> set rows. event_name x = ''session_start'' \<longrightarrow> timestamp x = t"
    and "\<exists>slack gap. 0 \<le> slack \<and> slack \<le> 60 \<and> 10 \<le> gap \<and> gap \<le> 600 \<and>
           t' = t + (watch_total rows + slack) * us_per_second + gap * us_per_minute \<and>
           (\<forall>x \<in> set rows. event_name x = ''session_end'' \<longrightarrow>
              timestamp x = t + (watch_total rows + slack) * us_per_second)"
    and "\<forall>x \<in> set rows. event_name x = ''first_login'' \<longrightarrow> timestamp x = t - 5 * us_per_minute"
    and "\<forall>x \<in> set rows. in_session x \<longrightarrow> t < timestamp x"
    and "sorted (map timestamp (filter in_session rows))"
    and "0 \<le> watch_total rows"
proof -
  from assms obtain a w chunks slack gap where
    rows: "rows = (if fle then [] else [mk_row a (t - 5 * us_per_minute) None ''first_login'' None])
               @ [mk_row a t None ''session_start'' None] @ chunks
               @ [mk_row a (t + (watch_total chunks + slack) * us_per_second) None
                    ''session_end'' None]"
    and ch: "chunk_rows a w t chunks"
    and b: "0 \<le> slack" "slack \<le> 60" "10 \<le> gap" "gap \<le> 600"
    and t': "t' = t + (watch_total chunks + slack) * us_per_second + gap * us_per_minute"
    by (rule session_blockE)
  have c: "\<forall>e \<in> set chunks. event_name e \<noteq> ''session_start'' \<and> event_name e \<noteq> ''session_end''
             \<and> event_name e \<noteq> ''first_login'' \<and> in_session e \<and> t < timestamp e"
    using chunk_row_props(3,4,5,6) chunk_rows_rowD[OF ch] chunk_rows_after[OF ch] by blast
  have wt: "watch_total rows = watch_total chunks"
    by (simp add: rows watch_total_def is_watch_def)
  show "\<forall>x \<in> set rows. event_name x = ''session_start'' \<longrightarrow> timestamp x = t"
    using c by (auto simp: rows)
  show "\<forall>x \<in> set rows. event_name x = ''first_login'' \<longrightarrow> timestamp x = t - 5 * us_per_minute"
    using c by (auto simp: rows)
  show "\<forall>x \<in> set rows. in_session x \<longrightarrow> t < timestamp x"
    using c by (auto simp: rows in_session_def)
  have "filter in_session rows = chunks"
    using c by (simp add: rows in_session_def)
  then show "sorted (map timestamp (filter in_session rows))"
    using chunk_rows_sorted[OF ch] by simp
  show "0 \<le> watch_total rows" using watch_total_nonneg[OF ch] wt by simp
  have "\<forall>x \<in> set rows. event_name x = ''session_end'' \<longrightarrow>
              timestamp x = t + (watch_total chunks + slack) * us_per_second"
    using c by (auto simp: rows)
  then have "\<forall>x \<in> set rows. event_name x = ''session_end'' \<longrightarrow>
              timestamp x = t + (watch_total rows + slack) * us_per_second"
    unfolding wt .
  with b t' wt show "\<exists>slack gap. 0 \<le> slack \<and> slack \<le> 60 \<and> 10 \<le> gap \<and> gap \<le> 600 \<and>
           t' = t + (watch_total rows + slack) * us_per_second + gap * us_per_minute \<and>
           (\<forall>x \<in> set rows. event_name x = ''session_end'' \<longrightarrow>
              timestamp x = t + (watch_total rows + slack) * us_per_second)"
    by auto
qed

lemma block_null:
  assumes "session_block video_ids uid s fle t rows t'" and "e \<in> set rows"
  shows "(video_id e = None \<longleftrightarrow> event_name e = ''first_login'' \<or> event_name e = ''session_start''
            \<or> event_name e = ''session_end'')
       \<and> (video_id e \<noteq> None \<longleftrightarrow> in_session e)
       \<and> (val e \<noteq> None \<longleftrightarrow> event_name e = ''watch_time'')"
proof -
  from assms(1) obtain a w chunks slack gap where
    rows: "rows = (if fle then [] else [mk_row a (t - 5 * us_per_minute) None ''first_login'' None])
               @ [mk_row a t None ''session_start'' None] @ chunks
               @ [mk_row a (t + (watch_total chunks + slack) * us_per_second) None
                    ''session_end'' None]"
    and ch: "chunk_rows a w t chunks"
    by (rule session_blockE)
  from assms(2) rows consider "e \<in> set chunks"
    | "e = mk_row a (t - 5 * us_per_minute) None ''first_login'' None"
    | "e = mk_row a t None ''session_start'' None"
    | "e = mk_row a (t + (watch_total chunks + slack) * us_per_second) None ''session_end'' None"
    by (auto split: if_splits)
  then show ?thesis
  proof cases
    case 1
    note p = chunk_row_props[OF chunk_rows_rowD[OF ch 1]]
    from p(7) have "video_id e \<noteq> None" by auto
    with p(3,4,5,6,8) show ?thesis by simp
  qed (simp_all add: in_session_def)
qed

lemma block_follows:
  assumes "session_block video_ids uid s fle t rows t'"
  shows "follows_ok None rows"
proof -
  from assms obtain a w chunks slack gap where
    rows: "rows = (if fle then [] else [mk_row a (t - 5 * us_per_minute) None ''first_login'' None])
               @ [mk_row a t None ''session_start'' None] @ chunks
               @ [mk_row a (t + (watch_total chunks + slack) * us_per_second) None
                    ''session_end'' None]"
    and ch: "chunk_rows a w t chunks"
    by (rule session_blockE)
  have "follows_ok p chunks" for p
    using chunk_rows_follows[OF ch] by (rule follows_ok_weaken)
  then show ?thesis
    by (simp add: rows follows_ok_append is_engagement_def)
qed

lemma block_videos:
  assumes "session_block video_ids uid s fle t rows t'"
  shows "\<exists>w. set w \<subseteq> set video_ids \<and> length w \<le> 4 \<and> (distinct video_ids \<longrightarrow> distinct w) \<and>
           (\<forall>x \<in> set rows. in_session x \<longrightarrow> (\<exists>vid \<in> set w. video_id x = Some vid))"
proof -
  from assms obtain a w chunks slack gap where
    rows: "rows = (if fle then [] else [mk_row a (t - 5 * us_per_minute) None ''first_login'' None])
               @ [mk_row a t None ''session_start'' None] @ chunks
               @ [mk_row a (t + (watch_total chunks + slack) * us_per_second) None
                    ''session_end'' None]"
    and ch: "chunk_rows a w t chunks"
    and w: "set w \<subseteq> set video_ids" "length w \<le> 4" "distinct video_ids \<longrightarrow> distinct w"
    by (rule session_blockE)
  have c: "\<forall>x \<in> set chunks. \<exists>vid \<in> set w. video_id x = Some vid"
    using chunk_row_props(7) chunk_rows_rowD[OF ch] by blast
  have "\<forall>x \<in> set rows. in_session x \<longrightarrow> (\<exists>vid \<in> set w. video_id x = Some vid)"
    using c by (auto simp: rows in_session_def)
  with w show ?thesis by blast
qed

lemma block_no_login:
  assumes "session_block video_ids uid s True t rows t'" and "x \<in> set rows"
  shows "event_name x \<noteq> ''first_login''"
  using block_filter_name(3)[OF assms(1)] assms(2) by (auto simp: filter_empty_conv)

lemma block_head:
  assumes "session_block video_ids uid s False t rows t'"
  shows "\<exists>f st rest. rows = f # st # rest \<and> event_name f = ''first_login'' \<and>
           timestamp f = t - 5 * us_per_minute \<and> user_id f = uid \<and>
           event_name st = ''session_start'' \<and> timestamp st = t \<and> user_id st = uid \<and>
           session_id st = format_session_id uid s \<and>
           (\<forall>x \<in> set (st # rest). event_name x \<noteq> ''first_login'')"
proof -
  from assms obtain a w chunks slack gap where
    a: "sa_user_id a = uid" "sa_session_id a = format_session_id uid s"
    and rows: "rows = (if False then [] else [mk_row a (t - 5 * us_per_minute) None ''first_login'' None])
               @ [mk_row a t None ''session_start'' None] @ chunks
               @ [mk_row a (t + (watch_total chunks + slack) * us_per_second) None
                    ''session_end'' None]"
    and ch: "chunk_rows a w t chunks"
    by (rule session_blockE)
  have c: "\<forall>e \<in> set chunks. event_name e \<noteq> ''first_login''"
    using chunk_row_props(6) chunk_rows_rowD[OF ch] by blast
  show ?thesis
    using a c
    by (intro exI[of _ "mk_row a (t - 5 * us_per_minute) None ''first_login'' None"]
        exI[of _ "mk_row a t None ''session_start'' None"]
        exI[of _ "chunks @ [mk_row a (t + (watch_total chunks + slack) * us_per_second) None
                    ''session_end'' None]"]) (auto simp: rows)
qed

lemma block_next_time:
  assumes "session_block video_ids uid s fle t rows t'"
  shows "t < t'"
proof -
  from block_times(2)[OF assms] block_times(6)[OF assms] obtain slack gap where
    "0 \<le> slack" "10 \<le> gap" "0 \<le> watch_total rows"
    "t' = t + (watch_total rows + slack) * us_per_second + gap * us_per_minute" by blast
  then show ?thesis by (simp add: us_per_second_def us_per_minute_def)
qed

section \<open>One user's rows\<close>

lemma sessions_ids:
  "sessions_tr video_ids uid ss fle t rows t' \<Longrightarrow> e \<in> set rows \<Longrightarrow>
     user_id e = uid \<and> (\<exists>s \<in> set ss. session_id e = format_session_id uid s)"
proof (induction rule: sessions_tr.induct)
  case (sessions_nil video_ids uid fle t)
  then show ?case by simp
next
  case (sessions_cons video_ids uid s fle t rows1 t1 ss rows2 t2)
  then show ?case using block_ids[of video_ids uid s fle t rows1 t1 e] by auto
qed

lemma sessions_filter:
  "sessions_tr video_ids uid ss fle t rows t' \<Longrightarrow> distinct ss \<Longrightarrow> s \<in> set ss \<Longrightarrow>
     \<exists>fle1 t1 t1'. session_block video_ids uid s fle1 t1
        (filter (\<lambda>x. session_id x = format_session_id uid s) rows) t1'"
proof (induction rule: sessions_tr.induct)
  case (sessions_nil video_ids uid fle t)
  then show ?case by simp
next
  case (sessions_cons video_ids uid s0 fle t rows1 t1 ss rows2 t2)
  show ?case
  proof (cases "s = s0")
    case True
    have 1: "filter (\<lambda>x. session_id x = format_session_id uid s) rows1 = rows1"
      using block_ids[OF sessions_cons.hyps(1)] True by (simp add: filter_id_conv)
    have "s \<notin> set ss" using sessions_cons.prems(1) True by simp
    then have 2: "filter (\<lambda>x. session_id x = format_session_id uid s) rows2 = []"
      using sessions_ids[OF sessions_cons.hyps(2)] by (fastforce simp: filter_empty_conv)
    show ?thesis using sessions_cons.hyps(1) 1 2 True by auto
  next
    case False
    have 1: "filter (\<lambda>x. session_id x = format_session_id uid s) rows1 = []"
      using block_ids[OF sessions_cons.hyps(1)] False by (simp add: filter_empty_conv)
    from False sessions_cons.prems have "distinct ss" "s \<in> set ss" by simp_all
    from sessions_cons.IH[OF this] 1 show ?thesis by simp
  qed
qed

lemma sessions_no_login:
  "sessions_tr video_ids uid ss fle t rows t' \<Longrightarrow> fle \<Longrightarrow> x \<in> set rows \<Longrightarrow>
     event_name x \<noteq> ''first_login''"
proof (induction rule: sessions_tr.induct)
  case (sessions_nil video_ids uid fle t)
  then show ?case by simp
next
  case (sessions_cons video_ids uid s fle t rows1 t1 ss rows2 t2)
  then show ?case using block_no_login[of video_ids uid s t rows1 t1 x] by auto
qed

lemma sessions_head:
  assumes "sessions_tr video_ids uid (s # ss) False t rows t'"
  shows "\<exists>f st rest. rows = f # st # rest \<and> event_name f = ''first_login'' \<and>
           timestamp f = t - 5 * us_per_minute \<and> user_id f = uid \<and>
           event_name st = ''session_start'' \<and> timestamp st = t \<and> user_id st = uid \<and>
           session_id st = format_session_id uid s \<and>
           (\<forall>x \<in> set (st # rest). event_name x \<noteq> ''first_login'')"
proof -
  from assms obtain rows1 t1 rows2 where
    b: "session_block video_ids uid s False t rows1 t1"
    and r: "sessions_tr video_ids uid ss True t1 rows2 t'" and rows: "rows = rows1 @ rows2"
    by (auto elim: sessions_tr.cases)
  from block_head[OF b] obtain f st rest where
    h: "rows1 = f # st # rest" "event_name f = ''first_login''"
      "timestamp f = t - 5 * us_per_minute" "user_id f = uid"
      "event_name st = ''session_start''" "timestamp st = t" "user_id st = uid"
      "session_id st = format_session_id uid s"
      "\<forall>x \<in> set (st # rest). event_name x \<noteq> ''first_login''" by blast
  have "\<forall>x \<in> set rows2. event_name x \<noteq> ''first_login''"
    using sessions_no_login[OF r] by blast
  with h show ?thesis
    by (intro exI[of _ f] exI[of _ st] exI[of _ "rest @ rows2"]) (auto simp: rows)
qed

lemma sessions_lower:
  "sessions_tr video_ids uid ss fle t rows t' \<Longrightarrow>
     t \<le> t' \<and> (\<forall>x \<in> set rows. event_name x = ''session_start'' \<longrightarrow> t \<le> timestamp x)"
proof (induction rule: sessions_tr.induct)
  case (sessions_nil video_ids uid fle t)
  then show ?case by simp
next
  case (sessions_cons video_ids uid s fle t rows1 t1 ss rows2 t2)
  have "t < t1" using block_next_time[OF sessions_cons.hyps(1)] .
  moreover have "\<forall>x \<in> set rows1. event_name x = ''session_start'' \<longrightarrow> timestamp x = t"
    using block_times(1)[OF sessions_cons.hyps(1)] .
  ultimately show ?case using sessions_cons.IH by fastforce
qed

lemma sessions_order:
  "sessions_tr video_ids uid ss fle t rows t' \<Longrightarrow> sorted_wrt (<) ss \<Longrightarrow>
   x \<in> set rows \<Longrightarrow> y \<in> set rows \<Longrightarrow>
   event_name x = ''session_start'' \<Longrightarrow> event_name y = ''session_start'' \<Longrightarrow>
   session_id x = format_session_id uid i \<Longrightarrow> session_id y = format_session_id uid j \<Longrightarrow>
   i < j \<Longrightarrow> timestamp x < timestamp y"
proof (induction rule: sessions_tr.induct)
  case (sessions_nil video_ids uid fle t)
  then show ?case by simp
next
  case (sessions_cons video_ids uid s fle t rows1 t1 ss rows2 t2)
  note b = sessions_cons.hyps(1) and r = sessions_cons.hyps(2)
  from sessions_cons.prems(1) have srt: "sorted_wrt (<) ss" and lt: "\<forall>k \<in> set ss. s < k" by auto
  have in1: "z \<in> set rows1 \<Longrightarrow> session_id z = format_session_id uid k \<Longrightarrow> k = s" for z k
    using block_ids[OF b] by auto
  have in2: "z \<in> set rows2 \<Longrightarrow> session_id z = format_session_id uid k \<Longrightarrow> k \<in> set ss" for z k
    using sessions_ids[OF r, of z] by (auto dest: format_session_id_inj)
  from sessions_cons.prems(2,3) consider
      "x \<in> set rows1" "y \<in> set rows1" | "x \<in> set rows1" "y \<in> set rows2"
    | "x \<in> set rows2" "y \<in> set rows1" | "x \<in> set rows2" "y \<in> set rows2" by auto
  then show ?case
  proof cases
    case 1
    then have "i = s" "j = s" using in1 sessions_cons.prems(6,7) by blast+
    with sessions_cons.prems(8) show ?thesis by simp
  next
    case 2
    have "timestamp x = t" using block_times(1)[OF b] 2(1) sessions_cons.prems(4) by blast
    moreover have "t1 \<le> timestamp y" using sessions_lower[OF r] 2(2) sessions_cons.prems(5) by blast
    moreover have "t < t1" using block_next_time[OF b] .
    ultimately show ?thesis by simp
  next
    case 3
    then have "j = s" "i \<in> set ss" using in1 in2 sessions_cons.prems(6,7) by blast+
    with lt sessions_cons.prems(8) show ?thesis by auto
  next
    case 4
    then show ?thesis using sessions_cons.IH[OF srt] sessions_cons.prems by blast
  qed
qed

lemma sessions_gap:
  "sessions_tr video_ids uid ss fle t rows t' \<Longrightarrow> sorted_wrt (<) ss \<Longrightarrow>
   x \<in> set rows \<Longrightarrow> y \<in> set rows \<Longrightarrow>
   event_name x = ''session_end'' \<Longrightarrow> event_name y = ''session_start'' \<Longrightarrow>
   session_id x = format_session_id uid i \<Longrightarrow> session_id y = format_session_id uid (Suc i) \<Longrightarrow>
   \<exists>gap. 10 \<le> gap \<and> gap \<le> 600 \<and> timestamp y = timestamp x + gap * us_per_minute"
proof (induction rule: sessions_tr.induct)
  case (sessions_nil video_ids uid fle t)
  then show ?case by simp
next
  case (sessions_cons video_ids uid s fle t rows1 t1 ss rows2 t2)
  note b = sessions_cons.hyps(1) and r = sessions_cons.hyps(2)
  from sessions_cons.prems(1) have srt: "sorted_wrt (<) ss" and lt: "\<forall>k \<in> set ss. s < k" by auto
  have in1: "z \<in> set rows1 \<Longrightarrow> session_id z = format_session_id uid k \<Longrightarrow> k = s" for z k
    using block_ids[OF b] by auto
  have in2: "z \<in> set rows2 \<Longrightarrow> session_id z = format_session_id uid k \<Longrightarrow> k \<in> set ss" for z k
    using sessions_ids[OF r, of z] by (auto dest: format_session_id_inj)
  from sessions_cons.prems(2,3) consider
      "x \<in> set rows1" "y \<in> set rows1" | "x \<in> set rows1" "y \<in> set rows2"
    | "x \<in> set rows2" "y \<in> set rows1" | "x \<in> set rows2" "y \<in> set rows2" by auto
  then show ?case
  proof cases
    case 1
    then have "i = s" "Suc i = s" using in1 sessions_cons.prems(6,7) by blast+
    then show ?thesis by simp
  next
    case 2
    then have i: "i = s" and m: "Suc s \<in> set ss" using in1 in2 sessions_cons.prems(6,7) by blast+
    then obtain s1 ss1 where ss: "ss = s1 # ss1" by (cases ss) auto
    have "s1 = Suc s"
    proof -
      have "s < s1" using lt ss by simp
      moreover have "s1 \<le> Suc s" using m srt ss by auto
      ultimately show ?thesis by simp
    qed
    from r[unfolded ss] obtain rows3 t3 rows4 where
      b2: "session_block video_ids uid s1 True t1 rows3 t3"
      and r2: "sessions_tr video_ids uid ss1 True t3 rows4 t2" and rows2: "rows2 = rows3 @ rows4"
      by (auto elim: sessions_tr.cases)
    have "y \<in> set rows3"
    proof (rule ccontr)
      assume "y \<notin> set rows3"
      then have "y \<in> set rows4" using 2(2) rows2 by simp
      then obtain k where "k \<in> set ss1" "session_id y = format_session_id uid k"
        using sessions_ids[OF r2] by blast
      then have "Suc s \<in> set ss1" using sessions_cons.prems(7) i by simp
      then show False using srt ss \<open>s1 = Suc s\<close> by auto
    qed
    then have ty: "timestamp y = t1" using block_times(1)[OF b2] sessions_cons.prems(5) by blast
    from block_times(2)[OF b] obtain slack gap where
      g: "10 \<le> gap" "gap \<le> 600"
      and t1: "t1 = t + (watch_total rows1 + slack) * us_per_second + gap * us_per_minute"
      and e: "\<forall>x \<in> set rows1. event_name x = ''session_end'' \<longrightarrow>
              timestamp x = t + (watch_total rows1 + slack) * us_per_second" by blast
    have "timestamp x = t + (watch_total rows1 + slack) * us_per_second"
      using e 2(1) sessions_cons.prems(4) by blast
    with ty t1 g show ?thesis by (intro exI[of _ gap]) simp
  next
    case 3
    then have "Suc i = s" "i \<in> set ss" using in1 in2 sessions_cons.prems(6,7) by blast+
    with lt show ?thesis by auto
  next
    case 4
    then show ?thesis using sessions_cons.IH[OF srt] sessions_cons.prems by blast
  qed
qed

lemma sessions_follows:
  "sessions_tr video_ids uid ss fle t rows t' \<Longrightarrow> follows_ok None rows"
proof (induction rule: sessions_tr.induct)
  case (sessions_nil video_ids uid fle t)
  then show ?case by simp
next
  case (sessions_cons video_ids uid s fle t rows1 t1 ss rows2 t2)
  then show ?case using block_follows by (intro follows_ok_appendI) auto
qed

section \<open>The whole log\<close>

lemma log_ids:
  "log_tr dys base video_ids uids rows \<Longrightarrow> e \<in> set rows \<Longrightarrow>
     user_id e \<in> set uids \<and> (\<exists>s. session_id e = format_session_id (user_id e) s)"
proof (induction rule: log_tr.induct)
  case (log_nil dys base video_ids)
  then show ?case by simp
next
  case (log_cons video_ids uid p base h rows1 t' dys uids rows2)
  then show ?case using sessions_ids[OF log_cons.hyps(1), of e] by auto
qed

lemma log_filter_session:
  "log_tr dys base video_ids uids rows \<Longrightarrow> distinct uids \<Longrightarrow> e \<in> set rows \<Longrightarrow>
     \<exists>uid s fle t t'. session_block video_ids uid s fle t
        (filter (\<lambda>x. session_id x = session_id e) rows) t'"
proof (induction rule: log_tr.induct)
  case (log_nil dys base video_ids)
  then show ?case by simp
next
  case (log_cons video_ids uid p base h rows1 t' dys uids rows2)
  note s = log_cons.hyps(1) and l = log_cons.hyps(4)
  from log_cons.prems have d: "distinct uids" and nu: "uid \<notin> set uids" by simp_all
  show ?case
  proof (cases "e \<in> set rows1")
    case True
    from sessions_ids[OF s True] obtain k where k: "k \<in> set [0..<Suc p]"
      and sid: "session_id e = format_session_id uid k" by blast
    have "\<forall>x \<in> set rows2. session_id x \<noteq> format_session_id uid k"
    proof
      fix x assume "x \<in> set rows2"
      from log_ids[OF l this] obtain s' where "user_id x \<in> set uids"
        "session_id x = format_session_id (user_id x) s'" by blast
      with nu show "session_id x \<noteq> format_session_id uid k" by auto
    qed
    then have 2: "filter (\<lambda>x. session_id x = session_id e) rows2 = []"
      by (simp add: sid filter_empty_conv)
    from sessions_filter[OF s _ k] obtain fle1 t1 t1' where
      "session_block video_ids uid k fle1 t1
        (filter (\<lambda>x. session_id x = format_session_id uid k) rows1) t1'" by auto
    then show ?thesis using 2 sid by (simp only: filter_append append_Nil2) blast
  next
    case False
    with log_cons.prems have e2: "e \<in> set rows2" by simp
    from log_ids[OF l e2] obtain s' where u: "user_id e \<in> set uids"
      and sid: "session_id e = format_session_id (user_id e) s'" by blast
    have "\<forall>x \<in> set rows1. session_id x \<noteq> session_id e"
    proof
      fix x assume "x \<in> set rows1"
      from sessions_ids[OF s this] obtain k where "session_id x = format_session_id uid k" by blast
      with u nu sid show "session_id x \<noteq> session_id e" by auto
    qed
    then have 1: "filter (\<lambda>x. session_id x = session_id e) rows1 = []"
      by (simp add: filter_empty_conv)
    from log_cons.IH[OF d e2] 1 show ?thesis by simp
  qed
qed

lemma log_user_split:
  "log_tr dys base video_ids uids rows \<Longrightarrow> distinct uids \<Longrightarrow> u \<in> set uids \<Longrightarrow>
     \<exists>A U C p h t'. rows = A @ U @ C \<and> (\<forall>x \<in> set A. user_id x \<noteq> u) \<and>
        (\<forall>x \<in> set C. user_id x \<noteq> u) \<and>
        sessions_tr video_ids u [0..<Suc p] False (base + h * us_per_hour) U t' \<and>
        0 \<le> h \<and> h \<le> dys * 24"
proof (induction rule: log_tr.induct)
  case (log_nil dys base video_ids)
  then show ?case by simp
next
  case (log_cons video_ids uid p base h rows1 t' dys uids rows2)
  note s = log_cons.hyps(1) and l = log_cons.hyps(4)
  from log_cons.prems have d: "distinct uids" and nu: "uid \<notin> set uids" by simp_all
  show ?case
  proof (cases "u = uid")
    case True
    have "\<forall>x \<in> set rows2. user_id x \<noteq> u" using log_ids[OF l] nu True by blast
    with s log_cons.hyps(2,3) True show ?thesis
      by (intro exI[of _ "[]"] exI[of _ rows1] exI[of _ rows2] exI[of _ p] exI[of _ h]
          exI[of _ t']) simp
  next
    case False
    with log_cons.prems have "u \<in> set uids" by simp
    from log_cons.IH[OF d this] obtain A U C p' h' t'' where
      r: "rows2 = A @ U @ C" "\<forall>x \<in> set A. user_id x \<noteq> u" "\<forall>x \<in> set C. user_id x \<noteq> u"
        "sessions_tr video_ids u [0..<Suc p'] False (base + h' * us_per_hour) U t''"
        "0 \<le> h'" "h' \<le> dys * 24" by blast
    have "\<forall>x \<in> set rows1. user_id x \<noteq> u" using sessions_ids[OF s] False by blast
    with r show ?thesis
      by (intro exI[of _ "rows1 @ A"] exI[of _ U] exI[of _ C] exI[of _ p'] exI[of _ h']
          exI[of _ t'']) auto
  qed
qed

lemma log_follows: "log_tr dys base video_ids uids rows \<Longrightarrow> follows_ok None rows"
proof (induction rule: log_tr.induct)
  case (log_nil dys base video_ids)
  then show ?case by simp
next
  case (log_cons video_ids uid p base h rows1 t' dys uids rows2)
  then show ?case using sessions_follows by (intro follows_ok_appendI) auto
qed

section \<open>The run\<close>

lemma write_outputs_Inr:
  assumes "write_outputs env cfg = Inr out"
  obtains g g1 g2 g3 where
    "seed_generators env (seed cfg) = Inr g"
    "generate_users cfg (now_users env) g = Inr (users_csv out, g1)"
    "generate_videos cfg g1 = Inr (videos_csv out, g2)"
    "generate_events cfg (now_events env) (users_csv out) (videos_csv out) g2
       = Inr (events_jsonl out, g3)"
    "devices_csv out = generate_devices"
  using assms unfolding write_outputs_def by (auto simp: Let_def split_beta)

lemma write_outputs_ids:
  assumes "write_outputs env cfg = Inr out"
  shows "map fst (users_csv out) = map (\<lambda>i. ''u_'' @ zero_pad 5 i) [0..<nat (users cfg)]"
    and "map fst (videos_csv out) = map (\<lambda>i. ''v_'' @ zero_pad 5 i) [0..<nat (videos cfg)]"
    and "distinct (map fst (users_csv out))" and "distinct (map fst (videos_csv out))"
proof -
  from assms obtain g g1 g2 where
    u: "generate_users cfg (now_users env) g = Inr (users_csv out, g1)"
    and v: "generate_videos cfg g1 = Inr (videos_csv out, g2)"
    by (rule write_outputs_Inr)
  show 1: "map fst (users_csv out) = map (\<lambda>i. ''u_'' @ zero_pad 5 i) [0..<nat (users cfg)]"
    using u unfolding generate_users_def by (rule users_loop_ids)
  show 2: "map fst (videos_csv out) = map (\<lambda>i. ''v_'' @ zero_pad 5 i) [0..<nat (videos cfg)]"
    using v unfolding generate_videos_def by (rule videos_loop_ids)
  show "distinct (map fst (users_csv out))" unfolding 1 by (rule distinct_ids)
  show "distinct (map fst (videos_csv out))" unfolding 2 by (rule distinct_ids)
qed

lemma write_outputs_tr:
  assumes "write_outputs env cfg = Inr out"
  shows "log_tr (days cfg) (now_events env - days cfg * us_per_day)
           (map fst (videos_csv out)) (map fst (users_csv out)) (events_jsonl out)"
proof -
  from assms obtain g2 g3 where
    "generate_events cfg (now_events env) (users_csv out) (videos_csv out) g2
       = Inr (events_jsonl out, g3)"
    by (rule write_outputs_Inr)
  then show ?thesis by (rule generate_events_tr)
qed

lemma run_session_block:
  assumes "write_outputs env cfg = Inr out" and "e \<in> set (events_jsonl out)"
  shows "\<exists>uid s fle t t'. session_block (map fst (videos_csv out)) uid s fle t
           (filter (\<lambda>x. session_id x = session_id e) (events_jsonl out)) t'"
  using log_filter_session[OF write_outputs_tr[OF assms(1)] write_outputs_ids(3)[OF assms(1)] assms(2)] .

section \<open>Evaluating concrete runs\<close>

lemmas model_defs = write_outputs_def seed_generators_def generate_users_def generate_videos_def
  generate_events_def users_step_def videos_step_def user_step_def session_step_def
  draw_session_attrs_def chunk_step_def generate_devices_def
  randint_def choice_def sample_def random_53_def lt_0_12_def poisson_def int_exponential_def
  py_next_def np_next_def
  timedelta_us_def timedelta_days_def timedelta_hours_def timedelta_minutes_def
  timedelta_seconds_def datetime_range_def datetime_add_def datetime_sub_def date_of_def
  date_sub_def us_per_second_def us_per_minute_def us_per_hour_def us_per_day_def max_ordinal_def
  digit_char_def str_nat.simps str_int_def zero_pad_def format_session_id_def mk_row_def
  subscription_tiers_def age_groups_def genders_def genres_def accounts_def device_types_def
  device_os_options_def app_versions_def network_types_def countries_def

lemma replicate_numeral: "replicate (numeral k) x = x # replicate (pred_numeral k) x"
  by (simp add: numeral_eq_Suc)

lemma run_a: "write_outputs env_a cfg_a = Inr out_a"
  by (simp add: env_a_def cfg_a_def out_a_def log_a_def row_a_def model_defs Let_def
      replicate_numeral upt_conv_Cons del: bindE_Inr_iff)

lemma run_b: "write_outputs env_b cfg_a = Inr out_b"
  by (simp add: env_b_def cfg_a_def out_b_def log_a_def row_a_def shift_event_def model_defs
      Let_def replicate_numeral upt_conv_Cons del: bindE_Inr_iff)

lemma run_c: "write_outputs env_c cfg_c = Inr out_c"
  by (simp add: env_c_def cfg_c_def out_c_def log_c_def row_a_def model_defs Let_def
      replicate_numeral upt_conv_Cons del: bindE_Inr_iff)

lemma run_d: "write_outputs env_d cfg_c = Inr out_d"
  by (simp add: env_d_def cfg_c_def out_d_def log_d_def row_a_def model_defs Let_def
      replicate_numeral upt_conv_Cons del: bindE_Inr_iff)

lemma run_zero: "write_outputs env_a cfg_zero = Inr out_zero"
  by (simp add: env_a_def cfg_zero_def out_zero_def model_defs Let_def del: bindE_Inr_iff)

lemma run_no_videos: "write_outputs env_a cfg_no_videos = Inl IndexError"
  by (simp add: env_a_def cfg_no_videos_def model_defs Let_def
      replicate_numeral upt_conv_Cons del: bindE_Inr_iff)

lemma run_negative_days: "write_outputs env_a cfg_negative_days = Inl ValueError"
  by (simp add: env_a_def cfg_negative_days_def model_defs Let_def
      replicate_numeral upt_conv_Cons del: bindE_Inr_iff)

section \<open>The claims\<close>

text \<open>
  C8. In the log of a run that completes, a row's \<^verbatim>\<open>video_id\<close> is null exactly when its
  \<^verbatim>\<open>event_name\<close> is \<^verbatim>\<open>first_login\<close>, \<^verbatim>\<open>session_start\<close> or \<^verbatim>\<open>session_end\<close>, non-null exactly
  when it is \<^verbatim>\<open>watch_time\<close>, \<^verbatim>\<open>like\<close> or \<^verbatim>\<open>heart\<close>, and its \<^verbatim>\<open>value\<close> is non-null exactly
  when it is \<^verbatim>\<open>watch_time\<close>.
\<close>

theorem null_discipline:
  assumes "write_outputs env cfg = Inr out" and "e \<in> set (events_jsonl out)"
  shows "(video_id e = None \<longleftrightarrow>
            event_name e \<in> {''first_login'', ''session_start'', ''session_end''})
       \<and> (video_id e \<noteq> None \<longleftrightarrow> event_name e \<in> {''watch_time'', ''like'', ''heart''})
       \<and> (val e \<noteq> None \<longleftrightarrow> event_name e = ''watch_time'')"
proof -
  from run_session_block[OF assms] obtain uid s fle t t' where
    b: "session_block (map fst (videos_csv out)) uid s fle t
           (filter (\<lambda>x. session_id x = session_id e) (events_jsonl out)) t'" by blast
  have "e \<in> set (filter (\<lambda>x. session_id x = session_id e) (events_jsonl out))"
    using assms(2) by simp
  from block_null[OF b this] show ?thesis unfolding in_session_def by auto
qed

theorem null_discipline_witness:
  "write_outputs env_a cfg_a = Inr out_a
   \<and> log_a ! 2 \<in> set (events_jsonl out_a)
   \<and> event_name (log_a ! 2) = ''watch_time''
   \<and> video_id (log_a ! 2) = Some ''v_00000'' \<and> val (log_a ! 2) = Some 2
   \<and> (video_id (log_a ! 2) = None \<longleftrightarrow>
         event_name (log_a ! 2) \<in> {''first_login'', ''session_start'', ''session_end''})
   \<and> (video_id (log_a ! 2) \<noteq> None \<longleftrightarrow>
         event_name (log_a ! 2) \<in> {''watch_time'', ''like'', ''heart''})
   \<and> (val (log_a ! 2) \<noteq> None \<longleftrightarrow> event_name (log_a ! 2) = ''watch_time'')"
proof -
  have m: "log_a ! 2 \<in> set (events_jsonl out_a)" by (simp add: out_a_def log_a_def)
  have v: "event_name (log_a ! 2) = ''watch_time''" "video_id (log_a ! 2) = Some ''v_00000''"
    "val (log_a ! 2) = Some 2" by (simp_all add: log_a_def row_a_def)
  from null_discipline[OF run_a m] run_a m v show ?thesis by blast
qed

lemma filter_session_name:
  "filter (\<lambda>x. session_id x = sid \<and> P x) rows = filter P (filter (\<lambda>x. session_id x = sid) rows)"
  by (simp add: conj_commute)

text \<open>
  C9. In the log of a run that completes, every session (the session of any row \<open>e\<close>) has
  at least one and at most ten \<^verbatim>\<open>watch_time\<close> rows: one per chunk, and the chunk count is
  drawn from \<open>[1, 10]\<close>.
\<close>

theorem session_has_watch_time:
  assumes "write_outputs env cfg = Inr out" and "e \<in> set (events_jsonl out)"
  shows "1 \<le> length (filter (\<lambda>x. session_id x = session_id e \<and> event_name x = ''watch_time'')
                  (events_jsonl out))
       \<and> length (filter (\<lambda>x. session_id x = session_id e \<and> event_name x = ''watch_time'')
                  (events_jsonl out)) \<le> 10"
proof -
  from run_session_block[OF assms] obtain uid s fle t t' where
    b: "session_block (map fst (videos_csv out)) uid s fle t
           (filter (\<lambda>x. session_id x = session_id e) (events_jsonl out)) t'" by blast
  from block_filter_name(4,5)[OF b] show ?thesis
    unfolding is_watch_def filter_session_name[symmetric] by simp
qed

theorem session_has_watch_time_witness:
  "write_outputs env_a cfg_a = Inr out_a
   \<and> log_a ! 0 \<in> set (events_jsonl out_a)
   \<and> session_id (log_a ! 0) = ''s_u_00000_0000''
   \<and> filter (\<lambda>x. session_id x = ''s_u_00000_0000'' \<and> event_name x = ''watch_time'')
        (events_jsonl out_a) = [log_a ! 2]
   \<and> 1 \<le> length (filter (\<lambda>x. session_id x = session_id (log_a ! 0)
                              \<and> event_name x = ''watch_time'') (events_jsonl out_a))
   \<and> length (filter (\<lambda>x. session_id x = session_id (log_a ! 0)
                         \<and> event_name x = ''watch_time'') (events_jsonl out_a)) \<le> 10"
proof -
  have m: "log_a ! 0 \<in> set (events_jsonl out_a)" by (simp add: out_a_def log_a_def)
  have s: "session_id (log_a ! 0) = ''s_u_00000_0000''" by (simp add: log_a_def row_a_def)
  have f: "filter (\<lambda>x. session_id x = ''s_u_00000_0000'' \<and> event_name x = ''watch_time'')
        (events_jsonl out_a) = [log_a ! 2]" by (simp add: out_a_def log_a_def row_a_def)
  from session_has_watch_time[OF run_a m] run_a m s f show ?thesis by blast
qed

text \<open>
  C5. In the log of a run that completes, the \<^verbatim>\<open>session_end\<close> row of a session is stamped
  at the \<^verbatim>\<open>session_start\<close> timestamp plus the sum of the session's \<^verbatim>\<open>watch_time\<close> values
  plus a slack of 0 to 60, in seconds; so it is not before the \<^verbatim>\<open>session_start\<close>.
\<close>

theorem session_end_timestamp:
  assumes "write_outputs env cfg = Inr out"
    and "st \<in> set (events_jsonl out)" and "en \<in> set (events_jsonl out)"
    and "event_name st = ''session_start''" and "event_name en = ''session_end''"
    and "session_id en = session_id st"
  shows "(\<exists>slack. 0 \<le> slack \<and> slack \<le> 60 \<and>
            timestamp en = timestamp st
              + (watch_total (filter (\<lambda>x. session_id x = session_id st) (events_jsonl out)) + slack)
                * us_per_second)
       \<and> timestamp st \<le> timestamp en"
proof -
  let ?rows = "filter (\<lambda>x. session_id x = session_id st) (events_jsonl out)"
  from run_session_block[OF assms(1,2)] obtain uid s fle t t' where
    b: "session_block (map fst (videos_csv out)) uid s fle t ?rows t'" by blast
  have st: "st \<in> set ?rows" and en: "en \<in> set ?rows" using assms(2,3,6) by simp_all
  have ts: "timestamp st = t" using block_times(1)[OF b] st assms(4) by blast
  from block_times(2)[OF b] obtain slack where
    sl: "0 \<le> slack" "slack \<le> 60"
    and e: "\<forall>x \<in> set ?rows. event_name x = ''session_end'' \<longrightarrow>
              timestamp x = t + (watch_total ?rows + slack) * us_per_second" by blast
  have te: "timestamp en = timestamp st + (watch_total ?rows + slack) * us_per_second"
    using e en assms(5) ts by blast
  have "0 \<le> watch_total ?rows" using block_times(6)[OF b] .
  with sl have "0 \<le> (watch_total ?rows + slack) * us_per_second"
    by (simp add: us_per_second_def)
  with te sl show ?thesis by auto
qed

theorem session_end_timestamp_witness:
  "write_outputs env_a cfg_a = Inr out_a
   \<and> log_a ! 1 \<in> set (events_jsonl out_a) \<and> log_a ! 4 \<in> set (events_jsonl out_a)
   \<and> event_name (log_a ! 1) = ''session_start'' \<and> event_name (log_a ! 4) = ''session_end''
   \<and> session_id (log_a ! 4) = session_id (log_a ! 1)
   \<and> watch_total (filter (\<lambda>x. session_id x = session_id (log_a ! 1)) (events_jsonl out_a)) = 2
   \<and> timestamp (log_a ! 4) = timestamp (log_a ! 1) + (2 + 0) * us_per_second
   \<and> (\<exists>slack. 0 \<le> slack \<and> slack \<le> 60 \<and>
         timestamp (log_a ! 4) = timestamp (log_a ! 1)
           + (watch_total (filter (\<lambda>x. session_id x = session_id (log_a ! 1)) (events_jsonl out_a))
              + slack) * us_per_second)
   \<and> timestamp (log_a ! 1) \<le> timestamp (log_a ! 4)"
proof -
  have m: "log_a ! 1 \<in> set (events_jsonl out_a)" "log_a ! 4 \<in> set (events_jsonl out_a)"
    by (simp_all add: out_a_def log_a_def)
  have n: "event_name (log_a ! 1) = ''session_start''" "event_name (log_a ! 4) = ''session_end''"
    "session_id (log_a ! 4) = session_id (log_a ! 1)"
    by (simp_all add: log_a_def row_a_def)
  have w: "watch_total (filter (\<lambda>x. session_id x = session_id (log_a ! 1)) (events_jsonl out_a)) = 2"
    by (simp add: out_a_def log_a_def row_a_def watch_total_def is_watch_def watch_value_def)
  have t: "timestamp (log_a ! 4) = timestamp (log_a ! 1) + (2 + 0) * us_per_second"
    by (simp add: log_a_def row_a_def us_per_second_def)
  from session_end_timestamp[OF run_a m n] run_a m n w t show ?thesis by blast
qed

text \<open>
  C3, as amended. In the log of a run that completes, every session (the session of any
  row \<open>e\<close>) has exactly one \<^verbatim>\<open>session_start\<close> row and exactly one \<^verbatim>\<open>session_end\<close> row, every
  \<^verbatim>\<open>watch_time\<close>, \<^verbatim>\<open>like\<close> or \<^verbatim>\<open>heart\<close> row of the session is stamped after the
  \<^verbatim>\<open>session_start\<close> row, and the timestamps of these rows never decrease in emission order.
  Nothing bounds them by the \<^verbatim>\<open>session_end\<close> timestamp: the pointer advances by 1 to 50
  seconds per chunk, the end by the watch values.
\<close>

theorem session_bracketing:
  assumes "write_outputs env cfg = Inr out" and "e \<in> set (events_jsonl out)"
  shows "length (filter (\<lambda>x. session_id x = session_id e \<and> event_name x = ''session_start'')
                  (events_jsonl out)) = 1
       \<and> length (filter (\<lambda>x. session_id x = session_id e \<and> event_name x = ''session_end'')
                  (events_jsonl out)) = 1
       \<and> (\<forall>st x. st \<in> set (events_jsonl out) \<and> x \<in> set (events_jsonl out)
              \<and> session_id st = session_id e \<and> session_id x = session_id e
              \<and> event_name st = ''session_start'' \<and> in_session x
              \<longrightarrow> timestamp st < timestamp x)
       \<and> sorted (map timestamp
            (filter (\<lambda>x. session_id x = session_id e \<and> in_session x) (events_jsonl out)))"
proof -
  let ?rows = "filter (\<lambda>x. session_id x = session_id e) (events_jsonl out)"
  from run_session_block[OF assms] obtain uid s fle t t' where
    b: "session_block (map fst (videos_csv out)) uid s fle t ?rows t'" by blast
  have 1: "length (filter (\<lambda>x. session_id x = session_id e \<and> event_name x = ''session_start'')
                  (events_jsonl out)) = 1"
    using block_filter_name(1)[OF b] unfolding filter_session_name[symmetric] .
  have 2: "length (filter (\<lambda>x. session_id x = session_id e \<and> event_name x = ''session_end'')
                  (events_jsonl out)) = 1"
    using block_filter_name(2)[OF b] unfolding filter_session_name[symmetric] .
  have 3: "timestamp st < timestamp x"
    if "st \<in> set (events_jsonl out)" "x \<in> set (events_jsonl out)"
      "session_id st = session_id e" "session_id x = session_id e"
      "event_name st = ''session_start''" "in_session x" for st x
  proof -
    have "st \<in> set ?rows" "x \<in> set ?rows" using that by simp_all
    then have "timestamp st = t" "t < timestamp x"
      using block_times(1,4)[OF b] that(5,6) by blast+
    then show ?thesis by simp
  qed
  have 4: "sorted (map timestamp
            (filter (\<lambda>x. session_id x = session_id e \<and> in_session x) (events_jsonl out)))"
    using block_times(5)[OF b] unfolding filter_session_name[symmetric] .
  from 1 2 3 4 show ?thesis by blast
qed

theorem session_bracketing_witness:
  "write_outputs env_c cfg_c = Inr out_c
   \<and> log_c ! 0 \<in> set (events_jsonl out_c)
   \<and> filter (\<lambda>x. session_id x = session_id (log_c ! 0) \<and> event_name x = ''session_start'')
        (events_jsonl out_c) = [log_c ! 1]
   \<and> filter (\<lambda>x. session_id x = session_id (log_c ! 0) \<and> event_name x = ''session_end'')
        (events_jsonl out_c) = [log_c ! 4]
   \<and> map timestamp (filter (\<lambda>x. session_id x = session_id (log_c ! 0) \<and> in_session x)
        (events_jsonl out_c)) = [63839577650000000, 63839577651000000]
   \<and> sorted (map timestamp
        (filter (\<lambda>x. session_id x = session_id (log_c ! 0) \<and> in_session x) (events_jsonl out_c)))
   \<and> timestamp (log_c ! 1) < timestamp (log_c ! 2)"
proof -
  have m: "log_c ! 0 \<in> set (events_jsonl out_c)" by (simp add: out_c_def log_c_def)
  have f: "filter (\<lambda>x. session_id x = session_id (log_c ! 0) \<and> event_name x = ''session_start'')
        (events_jsonl out_c) = [log_c ! 1]"
    "filter (\<lambda>x. session_id x = session_id (log_c ! 0) \<and> event_name x = ''session_end'')
        (events_jsonl out_c) = [log_c ! 4]"
    "map timestamp (filter (\<lambda>x. session_id x = session_id (log_c ! 0) \<and> in_session x)
        (events_jsonl out_c)) = [63839577650000000, 63839577651000000]"
    by (simp_all add: out_c_def log_c_def row_a_def in_session_def)
  have p: "log_c ! 1 \<in> set (events_jsonl out_c) \<and> log_c ! 2 \<in> set (events_jsonl out_c)
      \<and> session_id (log_c ! 1) = session_id (log_c ! 0)
      \<and> session_id (log_c ! 2) = session_id (log_c ! 0)
      \<and> event_name (log_c ! 1) = ''session_start'' \<and> in_session (log_c ! 2)"
    by (simp add: out_c_def log_c_def row_a_def in_session_def)
  from session_bracketing[OF run_c m] have
    "sorted (map timestamp
        (filter (\<lambda>x. session_id x = session_id (log_c ! 0) \<and> in_session x) (events_jsonl out_c)))"
    and "\<forall>st x. st \<in> set (events_jsonl out_c) \<and> x \<in> set (events_jsonl out_c)
              \<and> session_id st = session_id (log_c ! 0) \<and> session_id x = session_id (log_c ! 0)
              \<and> event_name st = ''session_start'' \<and> in_session x
              \<longrightarrow> timestamp st < timestamp x"
    by blast+
  with p have "sorted (map timestamp
        (filter (\<lambda>x. session_id x = session_id (log_c ! 0) \<and> in_session x) (events_jsonl out_c)))"
    "timestamp (log_c ! 1) < timestamp (log_c ! 2)" by blast+
  with run_c m f show ?thesis by blast
qed

text \<open>
  C3 as stated fails: in this run the \<^verbatim>\<open>watch_time\<close> row of the session is stamped 50
  seconds after the \<^verbatim>\<open>session_start\<close>, the \<^verbatim>\<open>session_end\<close> row 1 second after it.
\<close>

theorem session_bracketing_counterexample:
  "write_outputs env_c cfg_c = Inr out_c
   \<and> log_c ! 2 \<in> set (events_jsonl out_c) \<and> log_c ! 4 \<in> set (events_jsonl out_c)
   \<and> event_name (log_c ! 2) = ''watch_time'' \<and> event_name (log_c ! 4) = ''session_end''
   \<and> session_id (log_c ! 2) = session_id (log_c ! 4)
   \<and> timestamp (log_c ! 4) < timestamp (log_c ! 2)"
  using run_c by (simp add: out_c_def log_c_def row_a_def)

lemma follows_ok_nth:
  "follows_ok p rows \<Longrightarrow> i < length rows \<Longrightarrow> is_engagement (rows ! i) \<Longrightarrow>
     (case (if i = 0 then p else Some (rows ! (i - 1))) of None \<Rightarrow> False
      | Some w \<Rightarrow> is_watch w \<and> session_id w = session_id (rows ! i)
                   \<and> timestamp (rows ! i) = timestamp w + us_per_second)"
proof (induction rows arbitrary: p i)
  case Nil
  then show ?case by simp
next
  case (Cons e es)
  show ?case
  proof (cases i)
    case 0
    with Cons.prems show ?thesis by (auto split: option.splits)
  next
    case (Suc j)
    with Cons.prems have "follows_ok (Some e) es" "j < length es" "is_engagement (es ! j)"
      by simp_all
    from Cons.IH[OF this] Suc show ?thesis by (cases j) simp_all
  qed
qed

text \<open>
  C10. In the log of a run that completes, every \<^verbatim>\<open>like\<close> or \<^verbatim>\<open>heart\<close> row comes right after
  a \<^verbatim>\<open>watch_time\<close> row of the same session and is stamped one second after it (so a chunk
  has at most one such row), and the \<^verbatim>\<open>video_id\<close>s of the \<^verbatim>\<open>watch_time\<close>, \<^verbatim>\<open>like\<close> and
  \<^verbatim>\<open>heart\<close> rows of its session all come from one list of at most four distinct ids of
  the video table.
\<close>

theorem engagement_follows_watch:
  assumes "write_outputs env cfg = Inr out"
    and "i < length (events_jsonl out)"
    and "event_name (events_jsonl out ! i) = ''like'' \<or> event_name (events_jsonl out ! i) = ''heart''"
  shows "0 < i
       \<and> event_name (events_jsonl out ! (i - 1)) = ''watch_time''
       \<and> session_id (events_jsonl out ! (i - 1)) = session_id (events_jsonl out ! i)
       \<and> timestamp (events_jsonl out ! i) = timestamp (events_jsonl out ! (i - 1)) + us_per_second
       \<and> (\<exists>w. set w \<subseteq> fst ` set (videos_csv out) \<and> length w \<le> 4 \<and> distinct w \<and>
              (\<forall>x. x \<in> set (events_jsonl out) \<and> session_id x = session_id (events_jsonl out ! i)
                    \<and> in_session x \<longrightarrow> (\<exists>vid. vid \<in> set w \<and> video_id x = Some vid)))"
proof -
  let ?log = "events_jsonl out"
  let ?e = "?log ! i"
  have f: "follows_ok None ?log" using log_follows[OF write_outputs_tr[OF assms(1)]] .
  have eng: "is_engagement ?e" using assms(3) by (simp add: is_engagement_def)
  from follows_ok_nth[OF f assms(2) eng] have 1: "0 < i
       \<and> event_name (?log ! (i - 1)) = ''watch_time''
       \<and> session_id (?log ! (i - 1)) = session_id ?e
       \<and> timestamp ?e = timestamp (?log ! (i - 1)) + us_per_second"
    by (cases "i = 0") (simp_all add: is_watch_def)
  have m: "?e \<in> set ?log" using assms(2) by simp
  from run_session_block[OF assms(1) m] obtain uid s fle t t' where
    b: "session_block (map fst (videos_csv out)) uid s fle t
           (filter (\<lambda>x. session_id x = session_id ?e) ?log) t'" by blast
  from block_videos[OF b] write_outputs_ids(4)[OF assms(1)] obtain w where
    w: "set w \<subseteq> set (map fst (videos_csv out))" "length w \<le> 4" "distinct w"
    and v: "\<forall>x \<in> set (filter (\<lambda>x. session_id x = session_id ?e) ?log).
              in_session x \<longrightarrow> (\<exists>vid \<in> set w. video_id x = Some vid)" by blast
  have "\<forall>x. x \<in> set ?log \<and> session_id x = session_id ?e \<and> in_session x
              \<longrightarrow> (\<exists>vid. vid \<in> set w \<and> video_id x = Some vid)"
    using v by auto
  with w have "\<exists>w. set w \<subseteq> fst ` set (videos_csv out) \<and> length w \<le> 4 \<and> distinct w \<and>
              (\<forall>x. x \<in> set ?log \<and> session_id x = session_id ?e
                    \<and> in_session x \<longrightarrow> (\<exists>vid. vid \<in> set w \<and> video_id x = Some vid))"
    by (intro exI[of _ w]) simp
  with 1 show ?thesis by blast
qed

theorem engagement_follows_watch_witness:
  "write_outputs env_a cfg_a = Inr out_a
   \<and> 3 < length (events_jsonl out_a)
   \<and> event_name (events_jsonl out_a ! 3) = ''like''
   \<and> (0::nat) < 3
   \<and> event_name (events_jsonl out_a ! (3 - 1)) = ''watch_time''
   \<and> session_id (events_jsonl out_a ! (3 - 1)) = session_id (events_jsonl out_a ! 3)
   \<and> timestamp (events_jsonl out_a ! 3) = timestamp (events_jsonl out_a ! (3 - 1)) + us_per_second
   \<and> (\<exists>w. set w \<subseteq> fst ` set (videos_csv out_a) \<and> length w \<le> 4 \<and> distinct w \<and>
          (\<forall>x. x \<in> set (events_jsonl out_a) \<and> session_id x = session_id (events_jsonl out_a ! 3)
                \<and> in_session x \<longrightarrow> (\<exists>vid. vid \<in> set w \<and> video_id x = Some vid)))"
proof -
  have l: "3 < length (events_jsonl out_a)" by (simp add: out_a_def log_a_def)
  have n: "event_name (events_jsonl out_a ! 3) = ''like''"
    by (simp add: out_a_def log_a_def row_a_def)
  from engagement_follows_watch[OF run_a l disjI1[OF n]] run_a l n show ?thesis by blast
qed

lemma run_user_split:
  assumes "write_outputs env cfg = Inr out" and "e \<in> set (events_jsonl out)"
  shows "\<exists>A U C p h t'. events_jsonl out = A @ U @ C \<and> (\<forall>x \<in> set A. user_id x \<noteq> user_id e) \<and>
        (\<forall>x \<in> set C. user_id x \<noteq> user_id e) \<and> e \<in> set U \<and>
        sessions_tr (map fst (videos_csv out)) (user_id e) [0..<Suc p] False
          (now_events env - days cfg * us_per_day + h * us_per_hour) U t' \<and>
        0 \<le> h \<and> h \<le> days cfg * 24"
proof -
  note tr = write_outputs_tr[OF assms(1)]
  have u: "user_id e \<in> set (map fst (users_csv out))" using log_ids[OF tr assms(2)] by blast
  from log_user_split[OF tr write_outputs_ids(3)[OF assms(1)] u] obtain A U C p h t' where
    r: "events_jsonl out = A @ U @ C" "\<forall>x \<in> set A. user_id x \<noteq> user_id e"
      "\<forall>x \<in> set C. user_id x \<noteq> user_id e"
      "sessions_tr (map fst (videos_csv out)) (user_id e) [0..<Suc p] False
          (now_events env - days cfg * us_per_day + h * us_per_hour) U t'"
      "0 \<le> h" "h \<le> days cfg * 24" by blast
  have "e \<in> set U" using assms(2) r(1,2,3) by auto
  with r show ?thesis by blast
qed

lemma run_session_user:
  assumes "write_outputs env cfg = Inr out" and "x \<in> set (events_jsonl out)"
    and "session_id x = format_session_id u i"
  shows "user_id x = u"
  using log_ids[OF write_outputs_tr[OF assms(1)] assms(2)] assms(3) by auto

lemma sessions_first_start:
  assumes "sessions_tr video_ids uid (s # ss) fle t rows t'" and "s \<notin> set ss"
    and "x \<in> set rows" and "event_name x = ''session_start''"
    and "session_id x = format_session_id uid s"
  shows "timestamp x = t"
proof -
  from assms(1) obtain rows1 t1 rows2 where
    b: "session_block video_ids uid s fle t rows1 t1"
    and r: "sessions_tr video_ids uid ss True t1 rows2 t'" and rows: "rows = rows1 @ rows2"
    by (auto elim: sessions_tr.cases)
  have "x \<notin> set rows2" using sessions_ids[OF r, of x] assms(2,5) by auto
  with assms(3) rows have "x \<in> set rows1" by simp
  with block_times(1)[OF b] assms(4) show ?thesis by blast
qed

text \<open>
  C6. In the log of a run that completes, every user with a row in the log has exactly
  one \<^verbatim>\<open>first_login\<close> row; it is the first row of that user, the next row is a
  \<^verbatim>\<open>session_start\<close> of that user stamped 5 minutes later, and no \<^verbatim>\<open>session_start\<close> of
  that user is stamped earlier than that one.
\<close>

theorem first_login_unique:
  assumes "write_outputs env cfg = Inr out" and "e \<in> set (events_jsonl out)"
  shows "length (filter (\<lambda>x. user_id x = user_id e \<and> event_name x = ''first_login'')
                  (events_jsonl out)) = 1
       \<and> (\<exists>A f st B. events_jsonl out = A @ f # st # B
             \<and> (\<forall>x. x \<in> set A \<longrightarrow> user_id x \<noteq> user_id e)
             \<and> user_id f = user_id e \<and> event_name f = ''first_login''
             \<and> user_id st = user_id e \<and> event_name st = ''session_start''
             \<and> timestamp st = timestamp f + 5 * us_per_minute
             \<and> (\<forall>x. x \<in> set (events_jsonl out) \<and> user_id x = user_id e
                     \<and> event_name x = ''session_start'' \<longrightarrow> timestamp st \<le> timestamp x))"
proof -
  let ?u = "user_id e"
  from run_user_split[OF assms] obtain A U C p h t' where
    log: "events_jsonl out = A @ U @ C" and A: "\<forall>x \<in> set A. user_id x \<noteq> ?u"
    and C: "\<forall>x \<in> set C. user_id x \<noteq> ?u"
    and tr: "sessions_tr (map fst (videos_csv out)) ?u [0..<Suc p] False
          (now_events env - days cfg * us_per_day + h * us_per_hour) U t'"
    by blast
  let ?t = "now_events env - days cfg * us_per_day + h * us_per_hour"
  have upt: "[0..<Suc p] = 0 # [Suc 0..<Suc p]" by (simp add: upt_conv_Cons)
  from sessions_head[OF tr[unfolded upt]] obtain f st rest where
    U: "U = f # st # rest" and f: "event_name f = ''first_login''"
      "timestamp f = ?t - 5 * us_per_minute" "user_id f = ?u"
    and st: "event_name st = ''session_start''" "timestamp st = ?t" "user_id st = ?u"
    and nl: "\<forall>x \<in> set (st # rest). event_name x \<noteq> ''first_login''" by blast
  have fA: "filter (\<lambda>x. user_id x = ?u \<and> event_name x = ''first_login'') A = []"
    using A by (simp add: filter_empty_conv)
  have fC: "filter (\<lambda>x. user_id x = ?u \<and> event_name x = ''first_login'') C = []"
    using C by (simp add: filter_empty_conv)
  have fR: "filter (\<lambda>x. user_id x = ?u \<and> event_name x = ''first_login'') (st # rest) = []"
    using nl by (simp add: filter_empty_conv)
  have 1: "length (filter (\<lambda>x. user_id x = ?u \<and> event_name x = ''first_login'')
                  (events_jsonl out)) = 1"
  proof -
    let ?P = "\<lambda>x. user_id x = ?u \<and> event_name x = ''first_login''"
    have "events_jsonl out = A @ [f] @ (st # rest) @ C" unfolding log U by simp
    then have "filter ?P (events_jsonl out)
            = filter ?P A @ filter ?P [f] @ filter ?P (st # rest) @ filter ?P C"
      by (simp only: filter_append)
    also have "\<dots> = filter ?P [f]" unfolding fA fC fR by simp
    also have "\<dots> = [f]" using f by simp
    finally show ?thesis by simp
  qed
  have low: "timestamp st \<le> timestamp x"
    if "x \<in> set (events_jsonl out)" "user_id x = ?u" "event_name x = ''session_start''" for x
  proof -
    have "x \<in> set U" using that(1,2) log A C by auto
    with sessions_lower[OF tr] that(3) st(2) show ?thesis by auto
  qed
  have "events_jsonl out = A @ f # st # (rest @ C)" by (simp add: log U)
  moreover have "timestamp st = timestamp f + 5 * us_per_minute" using f(2) st(2) by simp
  ultimately have "\<exists>A f st B. events_jsonl out = A @ f # st # B
             \<and> (\<forall>x. x \<in> set A \<longrightarrow> user_id x \<noteq> ?u)
             \<and> user_id f = ?u \<and> event_name f = ''first_login''
             \<and> user_id st = ?u \<and> event_name st = ''session_start''
             \<and> timestamp st = timestamp f + 5 * us_per_minute
             \<and> (\<forall>x. x \<in> set (events_jsonl out) \<and> user_id x = ?u
                     \<and> event_name x = ''session_start'' \<longrightarrow> timestamp st \<le> timestamp x)"
    using A f st low
    by (intro exI[of _ A] exI[of _ f] exI[of _ st] exI[of _ "rest @ C"]) simp
  with 1 show ?thesis by blast
qed

theorem first_login_unique_witness:
  "write_outputs env_a cfg_a = Inr out_a
   \<and> log_a ! 6 \<in> set (events_jsonl out_a)
   \<and> user_id (log_a ! 6) = ''u_00000''
   \<and> filter (\<lambda>x. user_id x = ''u_00000'' \<and> event_name x = ''first_login'') (events_jsonl out_a)
       = [log_a ! 0]
   \<and> timestamp (log_a ! 1) = timestamp (log_a ! 0) + 5 * us_per_minute
   \<and> length (filter (\<lambda>x. user_id x = user_id (log_a ! 6) \<and> event_name x = ''first_login'')
                  (events_jsonl out_a)) = 1
   \<and> (\<exists>A f st B. events_jsonl out_a = A @ f # st # B
         \<and> (\<forall>x. x \<in> set A \<longrightarrow> user_id x \<noteq> user_id (log_a ! 6))
         \<and> user_id f = user_id (log_a ! 6) \<and> event_name f = ''first_login''
         \<and> user_id st = user_id (log_a ! 6) \<and> event_name st = ''session_start''
         \<and> timestamp st = timestamp f + 5 * us_per_minute
         \<and> (\<forall>x. x \<in> set (events_jsonl out_a) \<and> user_id x = user_id (log_a ! 6)
                 \<and> event_name x = ''session_start'' \<longrightarrow> timestamp st \<le> timestamp x))"
proof -
  have m: "log_a ! 6 \<in> set (events_jsonl out_a)" by (simp add: out_a_def log_a_def)
  have u: "user_id (log_a ! 6) = ''u_00000''" by (simp add: log_a_def row_a_def)
  have f: "filter (\<lambda>x. user_id x = ''u_00000'' \<and> event_name x = ''first_login'') (events_jsonl out_a)
       = [log_a ! 0]" by (simp add: out_a_def log_a_def row_a_def)
  have t: "timestamp (log_a ! 1) = timestamp (log_a ! 0) + 5 * us_per_minute"
    by (simp add: log_a_def row_a_def us_per_minute_def)
  from first_login_unique[OF run_a m] run_a m u f t show ?thesis by blast
qed

text \<open>
  C7. In the log of a run that completes, the \<^verbatim>\<open>session_start\<close> rows of one user are
  stamped in strictly increasing order of the session index, and the \<^verbatim>\<open>session_start\<close> of
  session \<open>i + 1\<close> is stamped a gap of 10 to 600 minutes after the \<^verbatim>\<open>session_end\<close> of
  session \<open>i\<close>, so strictly after it.
\<close>

theorem sessions_chronological:
  assumes "write_outputs env cfg = Inr out"
  shows "(\<forall>a b i j. a \<in> set (events_jsonl out) \<and> b \<in> set (events_jsonl out)
            \<and> event_name a = ''session_start'' \<and> event_name b = ''session_start''
            \<and> session_id a = format_session_id u i \<and> session_id b = format_session_id u j
            \<and> i < j \<longrightarrow> timestamp a < timestamp b)
       \<and> (\<forall>en b i. en \<in> set (events_jsonl out) \<and> b \<in> set (events_jsonl out)
            \<and> event_name en = ''session_end'' \<and> event_name b = ''session_start''
            \<and> session_id en = format_session_id u i
            \<and> session_id b = format_session_id u (Suc i)
            \<longrightarrow> (\<exists>gap. 10 \<le> gap \<and> gap \<le> 600
                      \<and> timestamp b = timestamp en + gap * us_per_minute)
                \<and> timestamp en < timestamp b)"
proof -
  have split: "\<exists>U p t t'. x \<in> set U \<and> y \<in> set U \<and>
      sessions_tr (map fst (videos_csv out)) u [0..<Suc p] False t U t'"
    if x: "x \<in> set (events_jsonl out)" and y: "y \<in> set (events_jsonl out)"
      and sx: "session_id x = format_session_id u i" and sy: "session_id y = format_session_id u j"
    for x y i j
  proof -
    have ux: "user_id x = u" using run_session_user[OF assms x sx] .
    have uy: "user_id y = u" using run_session_user[OF assms y sy] .
    from run_user_split[OF assms x] ux obtain A U C p h t' where
      log: "events_jsonl out = A @ U @ C" and A: "\<forall>z \<in> set A. user_id z \<noteq> u"
      and C: "\<forall>z \<in> set C. user_id z \<noteq> u" and xU: "x \<in> set U"
      and tr: "sessions_tr (map fst (videos_csv out)) u [0..<Suc p] False
          (now_events env - days cfg * us_per_day + h * us_per_hour) U t'"
      by auto
    have "y \<in> set U" using y uy log A C by auto
    with xU tr show ?thesis by blast
  qed
  have 1: "timestamp a < timestamp b"
    if "a \<in> set (events_jsonl out)" "b \<in> set (events_jsonl out)"
      "event_name a = ''session_start''" "event_name b = ''session_start''"
      "session_id a = format_session_id u i" "session_id b = format_session_id u j" "i < j"
    for a b i j
  proof -
    from split[OF that(1,2,5,6)] obtain U p t t' where
      "a \<in> set U" "b \<in> set U"
      "sessions_tr (map fst (videos_csv out)) u [0..<Suc p] False t U t'" by blast
    from sessions_order[OF this(3) sorted_wrt_upt this(1,2) that(3,4,5,6,7)] show ?thesis .
  qed
  have 2: "(\<exists>gap. 10 \<le> gap \<and> gap \<le> 600 \<and> timestamp b = timestamp en + gap * us_per_minute)
           \<and> timestamp en < timestamp b"
    if "en \<in> set (events_jsonl out)" "b \<in> set (events_jsonl out)"
      "event_name en = ''session_end''" "event_name b = ''session_start''"
      "session_id en = format_session_id u i" "session_id b = format_session_id u (Suc i)"
    for en b i
  proof -
    from split[OF that(1,2,5,6)] obtain U p t t' where
      "en \<in> set U" "b \<in> set U"
      "sessions_tr (map fst (videos_csv out)) u [0..<Suc p] False t U t'" by blast
    from sessions_gap[OF this(3) sorted_wrt_upt this(1,2) that(3,4,5,6)] obtain gap where
      g: "10 \<le> gap" "gap \<le> 600" "timestamp b = timestamp en + gap * us_per_minute" by blast
    then have "timestamp en < timestamp b" by (simp add: us_per_minute_def)
    with g show ?thesis by blast
  qed
  from 1 2 show ?thesis by blast
qed

theorem sessions_chronological_witness:
  "write_outputs env_a cfg_a = Inr out_a
   \<and> log_a ! 1 \<in> set (events_jsonl out_a) \<and> log_a ! 4 \<in> set (events_jsonl out_a)
   \<and> log_a ! 5 \<in> set (events_jsonl out_a)
   \<and> event_name (log_a ! 1) = ''session_start'' \<and> event_name (log_a ! 4) = ''session_end''
   \<and> event_name (log_a ! 5) = ''session_start''
   \<and> session_id (log_a ! 1) = format_session_id ''u_00000'' 0
   \<and> session_id (log_a ! 4) = format_session_id ''u_00000'' 0
   \<and> session_id (log_a ! 5) = format_session_id ''u_00000'' (Suc 0)
   \<and> timestamp (log_a ! 5) = timestamp (log_a ! 4) + 10 * us_per_minute
   \<and> timestamp (log_a ! 1) < timestamp (log_a ! 5)
   \<and> (\<exists>gap. 10 \<le> gap \<and> gap \<le> 600
         \<and> timestamp (log_a ! 5) = timestamp (log_a ! 4) + gap * us_per_minute)
   \<and> timestamp (log_a ! 4) < timestamp (log_a ! 5)"
proof -
  have m: "log_a ! 1 \<in> set (events_jsonl out_a)" "log_a ! 4 \<in> set (events_jsonl out_a)"
    "log_a ! 5 \<in> set (events_jsonl out_a)" by (simp_all add: out_a_def log_a_def)
  have n: "event_name (log_a ! 1) = ''session_start''" "event_name (log_a ! 4) = ''session_end''"
    "event_name (log_a ! 5) = ''session_start''" by (simp_all add: log_a_def row_a_def)
  have s: "session_id (log_a ! 1) = format_session_id ''u_00000'' 0"
    "session_id (log_a ! 4) = format_session_id ''u_00000'' 0"
    "session_id (log_a ! 5) = format_session_id ''u_00000'' (Suc 0)"
    by (simp_all add: log_a_def row_a_def format_session_id_def zero_pad_def str_nat.simps
        digit_char_def replicate_numeral)
  have t: "timestamp (log_a ! 5) = timestamp (log_a ! 4) + 10 * us_per_minute"
    by (simp add: log_a_def row_a_def us_per_minute_def)
  have lt: "(0::nat) < Suc 0" by simp
  note c = sessions_chronological[OF run_a, of "''u_00000''"]
  from c m n s lt have 1: "timestamp (log_a ! 1) < timestamp (log_a ! 5)" by blast
  from c m n s have 2: "(\<exists>gap. 10 \<le> gap \<and> gap \<le> 600
         \<and> timestamp (log_a ! 5) = timestamp (log_a ! 4) + gap * us_per_minute)
      \<and> timestamp (log_a ! 4) < timestamp (log_a ! 5)" by blast
  from run_a m n s t 1 2 show ?thesis by blast
qed

text \<open>
  C4, as amended. In the log of a run that completes, the \<^verbatim>\<open>session_start\<close> row of a user's
  session 0 (the user's initial cursor) is stamped at the window start, which is the clock
  reading of \<^verbatim>\<open>generate_events\<close> minus \<^verbatim>\<open>days\<close>, plus a whole number of hours in the closed
  interval from 0 to \<open>days * 24\<close>; and every user of the user table has such a row.
\<close>

theorem initial_cursor:
  assumes "write_outputs env cfg = Inr out"
  shows "(\<forall>e. e \<in> set (events_jsonl out) \<and> event_name e = ''session_start''
              \<and> session_id e = format_session_id (user_id e) 0
            \<longrightarrow> (\<exists>h. 0 \<le> h \<and> h \<le> days cfg * 24 \<and>
                   timestamp e = now_events env - days cfg * us_per_day + h * us_per_hour))
       \<and> (\<forall>u. u \<in> fst ` set (users_csv out)
            \<longrightarrow> (\<exists>e. e \<in> set (events_jsonl out) \<and> user_id e = u
                   \<and> event_name e = ''session_start'' \<and> session_id e = format_session_id u 0))"
proof -
  have upt: "[0..<Suc p] = 0 # [Suc 0..<Suc p]" for p by (simp add: upt_conv_Cons)
  have 1: "\<exists>h. 0 \<le> h \<and> h \<le> days cfg * 24 \<and>
                   timestamp e = now_events env - days cfg * us_per_day + h * us_per_hour"
    if e: "e \<in> set (events_jsonl out)" "event_name e = ''session_start''"
      "session_id e = format_session_id (user_id e) 0" for e
  proof -
    from run_user_split[OF assms e(1)] obtain U p h t' where
      eU: "e \<in> set U"
      and tr: "sessions_tr (map fst (videos_csv out)) (user_id e) [0..<Suc p] False
          (now_events env - days cfg * us_per_day + h * us_per_hour) U t'"
      and h: "0 \<le> h" "h \<le> days cfg * 24" by blast
    have "0 \<notin> set [Suc 0..<Suc p]" by simp
    from sessions_first_start[OF tr[unfolded upt] this eU e(2,3)] h show ?thesis by blast
  qed
  have 2: "\<exists>e. e \<in> set (events_jsonl out) \<and> user_id e = u
                   \<and> event_name e = ''session_start'' \<and> session_id e = format_session_id u 0"
    if u: "u \<in> fst ` set (users_csv out)" for u
  proof -
    have "u \<in> set (map fst (users_csv out))" using u by simp
    from log_user_split[OF write_outputs_tr[OF assms] write_outputs_ids(3)[OF assms] this]
    obtain A U C p h t' where
      log: "events_jsonl out = A @ U @ C"
      and tr: "sessions_tr (map fst (videos_csv out)) u [0..<Suc p] False
          (now_events env - days cfg * us_per_day + h * us_per_hour) U t'" by blast
    from sessions_head[OF tr[unfolded upt]] obtain f st rest where
      "U = f # st # rest" "event_name st = ''session_start''" "user_id st = u"
      "session_id st = format_session_id u 0" by blast
    with log show ?thesis by (intro exI[of _ st]) simp
  qed
  from 1 2 show ?thesis by blast
qed

theorem initial_cursor_witness:
  "write_outputs env_d cfg_c = Inr out_d
   \<and> log_d ! 1 \<in> set (events_jsonl out_d) \<and> event_name (log_d ! 1) = ''session_start''
   \<and> session_id (log_d ! 1) = format_session_id (user_id (log_d ! 1)) 0
   \<and> ''u_00000'' \<in> fst ` set (users_csv out_d)
   \<and> (\<exists>h. 0 \<le> h \<and> h \<le> days cfg_c * 24 \<and>
         timestamp (log_d ! 1) = now_events env_d - days cfg_c * us_per_day + h * us_per_hour)
   \<and> (\<exists>e. e \<in> set (events_jsonl out_d) \<and> user_id e = ''u_00000''
         \<and> event_name e = ''session_start'' \<and> session_id e = format_session_id ''u_00000'' 0)"
proof -
  have m: "log_d ! 1 \<in> set (events_jsonl out_d)" by (simp add: out_d_def log_d_def)
  have n: "event_name (log_d ! 1) = ''session_start''" by (simp add: log_d_def row_a_def)
  have s: "session_id (log_d ! 1) = format_session_id (user_id (log_d ! 1)) 0"
    by (simp add: log_d_def row_a_def format_session_id_def zero_pad_def str_nat.simps
        digit_char_def replicate_numeral)
  have u: "''u_00000'' \<in> fst ` set (users_csv out_d)" by (simp add: out_d_def)
  note c = initial_cursor[OF run_d]
  from c m n s have 1: "\<exists>h. 0 \<le> h \<and> h \<le> days cfg_c * 24 \<and>
         timestamp (log_d ! 1) = now_events env_d - days cfg_c * us_per_day + h * us_per_hour"
    by blast
  from c u have 2: "\<exists>e. e \<in> set (events_jsonl out_d) \<and> user_id e = ''u_00000''
         \<and> event_name e = ''session_start'' \<and> session_id e = format_session_id ''u_00000'' 0"
    by blast
  from run_d m n s u 1 2 show ?thesis by blast
qed

text \<open>
  C4 as stated fails: the offset is drawn by \<^verbatim>\<open>random.randint(0, cfg.days * 24)\<close>, whose
  upper bound is included. In this run of \<^verbatim>\<open>days = 1\<close> the offset is 24 hours, outside
  \<open>[0, 24)\<close>.
\<close>

theorem initial_cursor_counterexample:
  "write_outputs env_d cfg_c = Inr out_d
   \<and> log_d ! 1 \<in> set (events_jsonl out_d) \<and> event_name (log_d ! 1) = ''session_start''
   \<and> session_id (log_d ! 1) = format_session_id (user_id (log_d ! 1)) 0
   \<and> timestamp (log_d ! 1) - (now_events env_d - days cfg_c * us_per_day)
       = (days cfg_c * 24) * us_per_hour"
  using run_d
  by (simp add: out_d_def log_d_def row_a_def env_d_def cfg_c_def format_session_id_def
      zero_pad_def str_nat.simps digit_char_def replicate_numeral us_per_day_def us_per_hour_def)

section \<open>Runs that succeed, runs that fail\<close>

lemma randint_ok:
  assumes "a \<le> b" shows "\<exists>x g'. randint a b g = Inr (x, g') \<and> a \<le> x \<and> x \<le> b"
proof -
  from assms obtain x g' where r: "randint a b g = Inr (x, g')"
    by (cases "py_next g") (simp add: randint_def)
  with randint_Inr[OF r] show ?thesis by blast
qed

lemma choice_ok: "xs \<noteq> [] \<Longrightarrow> \<exists>x g'. choice xs g = Inr (x, g')"
  by (cases "py_next g") (simp add: choice_def)

lemma timedelta_us_ok:
  "- (999999999 * us_per_day) \<le> us \<Longrightarrow> us < 1000000000 * us_per_day \<Longrightarrow> timedelta_us us = Inr us"
proof -
  assume a: "- (999999999 * us_per_day) \<le> us" "us < 1000000000 * us_per_day"
  have "- 999999999 \<le> us div 86400000000" using a(1) by (simp add: us_per_day_def; linarith)
  moreover have "us div 86400000000 \<le> 999999999" using a(2) by (simp add: us_per_day_def; linarith)
  ultimately show ?thesis by (simp add: timedelta_us_def us_per_day_def)
qed

lemma datetime_range_ok:
  "0 \<le> t \<Longrightarrow> t < max_ordinal * us_per_day \<Longrightarrow> datetime_range t = Inr t"
  by (simp add: datetime_range_def)

lemma videos_step_ok: "\<exists>row g'. videos_step i g = Inr (row, g')"
proof -
  obtain genre g1 where 1: "choice genres g = Inr (genre, g1)"
    using choice_ok[of genres g] by (auto simp: genres_def)
  obtain d g2 where 2: "randint 30 3600 g1 = Inr (d, g2)" using randint_ok[of 30 3600 g1] by auto
  obtain p g3 where 3: "randint 1000 9999 g2 = Inr (p, g3)" using randint_ok[of 1000 9999 g2] by auto
  show ?thesis by (simp add: videos_step_def Let_def 1 2 3)
qed

lemma videos_loop_ok: "\<exists>rows g'. videos_loop is g = Inr (rows, g') \<and> length rows = length is"
proof (induction "is" arbitrary: g)
  case Nil
  then show ?case by simp
next
  case (Cons i rest)
  obtain row g1 where 1: "videos_step i g = Inr (row, g1)" using videos_step_ok by blast
  from Cons[of g1] obtain rows g2 where 2: "videos_loop rest g1 = Inr (rows, g2)"
    "length rows = length rest" by blast
  show ?case by (simp add: 1 2)
qed

lemma users_step_ok:
  assumes "1 \<le> days cfg + 7" and "days cfg + 7 \<le> today" and "today < max_ordinal"
  shows "\<exists>row g'. users_step cfg today i g = Inr (row, g')"
proof -
  obtain k g1 where 1: "randint 1 (days cfg + 7) g = Inr (k, g1)" and k: "1 \<le> k" "k \<le> days cfg + 7"
    using randint_ok[OF assms(1), of g] by auto
  have km: "k < max_ordinal" using k assms by simp
  have 2: "timedelta_days k = Inr (k * us_per_day)"
    unfolding timedelta_days_def using k km
    by (intro timedelta_us_ok) (simp_all add: us_per_day_def max_ordinal_def)
  have 3: "date_sub today (k * us_per_day) = Inr (today - k)"
    using k assms by (simp add: date_sub_def us_per_day_def)
  obtain tier g2 where 4: "choice subscription_tiers g1 = Inr (tier, g2)"
    using choice_ok[of subscription_tiers g1] by (auto simp: subscription_tiers_def)
  obtain ag g3 where 5: "choice age_groups g2 = Inr (ag, g3)"
    using choice_ok[of age_groups g2] by (auto simp: age_groups_def)
  obtain gd g4 where 6: "choice genders g3 = Inr (gd, g4)"
    using choice_ok[of genders g3] by (auto simp: genders_def)
  show ?thesis by (simp add: users_step_def Let_def 1 2 3 4 5 6)
qed

lemma users_loop_ok:
  assumes "1 \<le> days cfg + 7" and "days cfg + 7 \<le> today" and "today < max_ordinal"
  shows "\<exists>rows g'. users_loop cfg today is g = Inr (rows, g') \<and> length rows = length is"
proof (induction "is" arbitrary: g)
  case Nil
  then show ?case by simp
next
  case (Cons i rest)
  obtain row g1 where 1: "users_step cfg today i g = Inr (row, g1)"
    using users_step_ok[OF assms] by blast
  from Cons[of g1] obtain rows g2 where 2: "users_loop cfg today rest g1 = Inr (rows, g2)"
    "length rows = length rest" by blast
  show ?case by (simp add: 1 2)
qed

lemma draw_session_attrs_ok: "\<exists>a g'. draw_session_attrs uid s g = Inr (a, g')"
proof -
  obtain x1 g1 where 1: "choice accounts g = Inr (x1, g1)"
    using choice_ok[of accounts g] by (auto simp: accounts_def)
  obtain x2 g2 where 2: "choice device_types g1 = Inr (x2, g2)"
    using choice_ok[of device_types g1] by (auto simp: device_types_def)
  obtain x3 g3 where 3: "choice device_os_options g2 = Inr (x3, g3)"
    using choice_ok[of device_os_options g2] by (auto simp: device_os_options_def)
  obtain x4 g4 where 4: "choice app_versions g3 = Inr (x4, g4)"
    using choice_ok[of app_versions g3] by (auto simp: app_versions_def)
  obtain x5 g5 where 5: "choice network_types g4 = Inr (x5, g5)"
    using choice_ok[of network_types g4] by (auto simp: network_types_def)
  obtain x6 g6 where 6: "randint 0 255 g5 = Inr (x6, g6)" using randint_ok[of 0 255 g5] by auto
  obtain x7 g7 where 7: "randint 0 255 g6 = Inr (x7, g7)" using randint_ok[of 0 255 g6] by auto
  obtain x8 g8 where 8: "randint 1 254 g7 = Inr (x8, g8)" using randint_ok[of 1 254 g7] by auto
  obtain x9 g9 where 9: "choice countries g8 = Inr (x9, g9)"
    using choice_ok[of countries g8] by (auto simp: countries_def)
  show ?thesis by (simp add: draw_session_attrs_def 1 2 3 4 5 6 7 8 9)
qed

text \<open>With no video to watch, the first chunk raises \<^verbatim>\<open>IndexError\<close>.\<close>

lemma chunk_step_no_videos:
  assumes "0 \<le> t" and "t + 50 * us_per_second < max_ordinal * us_per_day"
  shows "chunk_step a [] t sws g = Inl IndexError"
proof -
  obtain step g1 where 1: "randint 1 50 g = Inr (step, g1)" and s: "1 \<le> step" "step \<le> 50"
    using randint_ok[of 1 50 g] by auto
  have 2: "timedelta_seconds step = Inr (step * us_per_second)"
    unfolding timedelta_seconds_def using s
    by (intro timedelta_us_ok) (simp_all add: us_per_second_def us_per_day_def)
  have "step * us_per_second \<le> 50 * us_per_second" using s by (simp add: us_per_second_def)
  then have 3: "datetime_add t (step * us_per_second) = Inr (t + step * us_per_second)"
    unfolding datetime_add_def using assms s
    by (intro datetime_range_ok) (simp_all add: us_per_second_def)
  show ?thesis
    by (simp add: chunk_step_def 1 2 3 Let_def split_beta choice_def)
qed

lemma session_step_no_videos:
  assumes "5 * us_per_minute \<le> t" and "t + 50 * us_per_second < max_ordinal * us_per_day"
  shows "session_step [] uid s False t g = Inl IndexError"
proof -
  obtain a g9 where 1: "draw_session_attrs uid s g = Inr (a, g9)"
    using draw_session_attrs_ok by blast
  have 2: "timedelta_minutes 5 = Inr (5 * us_per_minute)"
    unfolding timedelta_minutes_def
    by (intro timedelta_us_ok) (simp_all add: us_per_minute_def us_per_day_def)
  have 3: "datetime_sub t (5 * us_per_minute) = Inr (t - 5 * us_per_minute)"
    unfolding datetime_sub_def using assms
    by (intro datetime_range_ok) (simp_all add: us_per_minute_def us_per_second_def)
  obtain n g10 where 4: "randint 1 10 g9 = Inr (n, g10)" and n: "1 \<le> n"
    using randint_ok[of 1 10 g9] by auto
  obtain k g11 where 5: "randint 1 4 g10 = Inr (k, g11)" and k: "1 \<le> k"
    using randint_ok[of 1 4 g10] by auto
  have 6: "sample ([]::string list) (min (int (length ([]::string list))) k) g11 = Inr ([], g11)"
    using k by (simp add: sample_def)
  from n obtain m where m: "nat n = Suc m" by (cases "nat n") auto
  have t0: "0 \<le> t" using assms(1) by (simp add: us_per_minute_def)
  have 7: "chunks_loop a [] (nat n) t 0 g11 = Inl IndexError"
    unfolding m using chunk_step_no_videos[OF t0 assms(2)] by simp
  show ?thesis
    using 6 by (simp add: session_step_def 1 2 3 4 5 7)
qed

lemma user_step_no_videos:
  assumes "0 \<le> days cfg" and "5 * us_per_minute \<le> base"
    and "base + (days cfg + 1) * us_per_day < max_ordinal * us_per_day"
  shows "user_step cfg base [] uid g = Inl IndexError"
proof -
  obtain p g1 where 0: "poisson g = (p, g1)" by (cases "poisson g")
  from assms(1) have "0 \<le> days cfg * 24" by simp
  from randint_ok[OF this, of g1] obtain h g2 where
    1: "randint 0 (days cfg * 24) g1 = Inr (h, g2)" and h: "0 \<le> h" "h \<le> days cfg * 24" by auto
  have b0: "0 \<le> base" using assms(2) by (simp add: us_per_minute_def)
  have dm: "days cfg < max_ordinal" using assms(3) b0 by (simp add: us_per_day_def max_ordinal_def)
  have hh: "h * us_per_hour \<le> days cfg * us_per_day" using h by (simp add: us_per_hour_def us_per_day_def)
  have 2: "timedelta_hours h = Inr (h * us_per_hour)"
    unfolding timedelta_hours_def using h hh dm
    by (intro timedelta_us_ok) (simp_all add: us_per_hour_def us_per_day_def max_ordinal_def)
  have 3: "datetime_add base (h * us_per_hour) = Inr (base + h * us_per_hour)"
    unfolding datetime_add_def using h hh b0 assms(3)
    by (intro datetime_range_ok) (simp_all add: us_per_hour_def us_per_day_def)
  have t1: "5 * us_per_minute \<le> base + h * us_per_hour"
    using assms(2) h by (simp add: us_per_hour_def)
  have t2: "base + h * us_per_hour + 50 * us_per_second < max_ordinal * us_per_day"
    using hh assms(3) by (simp add: us_per_day_def us_per_second_def)
  have upt: "[0..<Suc p] = 0 # [Suc 0..<Suc p]" by (simp add: upt_conv_Cons)
  have 4: "sessions_loop [] uid [0..<Suc p] False (base + h * us_per_hour) g2 = Inl IndexError"
    unfolding upt using session_step_no_videos[OF t1 t2] by simp
  show ?thesis by (simp add: user_step_def 0 1 2 3 4 Let_def del: upt_Suc)
qed

lemma user_step_negative_days:
  assumes "days cfg < 0"
  shows "user_step cfg base video_ids uid g = Inl ValueError"
  using assms by (simp add: user_step_def randint_def Let_def split_beta)

end
